theory Spec2Isabelle
  imports Complex_Main
begin

section \<open>The SQLite to PostgreSQL migration script (migrate.js)\<close>

text \<open>
  A shallow embedding of \<^verbatim>\<open>sqlite-to-postgres-migration/migrate.js\<close>.
  The two databases are the environment of the script: every call into them is a field of
  the record \<open>env\<close> that gives the outcome of the call, an error (\<open>Inl\<close>, the rejected
  promise) or a result (\<open>Inr\<close>).  The script's own effects, the statements it sends to
  PostgreSQL and the lines it prints, are collected in the record \<open>state\<close>.
\<close>

subsection \<open>Strings\<close>

text \<open>
  A JavaScript string is modelled as a \<open>string\<close>, the bytes of its UTF-8 encoding: an ASCII
  character is one \<open>char\<close>, any other character a sequence of bytes from \<open>0x80\<close> up.

  The script uses \<^verbatim>\<open>toUpperCase\<close> and \<^verbatim>\<open>toLowerCase\<close> only to compare the result with words
  of ASCII letters, so the two functions are modelled as far as such a comparison can see.
  \<^item> \<^verbatim>\<open>toLowerCase\<close> lower-cases the letters A to Z.  No other character has a lower case
    made of letters of the reserved words it is compared with, so every other byte is left
    as it is.
  \<^item> \<^verbatim>\<open>toUpperCase\<close> upper-cases the letters a to z, and turns the dotless i (U+0131, the
    two bytes \<open>0xC4 0xB1\<close>) into the letter I, as JavaScript does.  The upper case of every
    other character holds a character that is not a letter of the four type keywords, so
    every other byte is left as it is.
\<close>

definition lower_letters :: string where
  "lower_letters = ''abcdefghijklmnopqrstuvwxyz''"

definition upper_letters :: string where
  "upper_letters = ''ABCDEFGHIJKLMNOPQRSTUVWXYZ''"

definition toUpperCase_char :: "char \<Rightarrow> char" where
  "toUpperCase_char c =
     (case map_of (zip lower_letters upper_letters) c of Some u \<Rightarrow> u | None \<Rightarrow> c)"

definition toLowerCase_char :: "char \<Rightarrow> char" where
  "toLowerCase_char c =
     (case map_of (zip upper_letters lower_letters) c of Some l \<Rightarrow> l | None \<Rightarrow> c)"

fun toUpperCase :: "string \<Rightarrow> string" where
  "toUpperCase [] = []"
| "toUpperCase [c] = [toUpperCase_char c]"
| "toUpperCase (c # d # cs) =
     (if c = CHR 0xC4 \<and> d = CHR 0xB1 then CHR ''I'' # toUpperCase cs
      else toUpperCase_char c # toUpperCase (d # cs))"

definition toLowerCase :: "string \<Rightarrow> string" where
  "toLowerCase s = map toLowerCase_char s"

text \<open>
  Case-insensitive equality of two strings: they are equal once every letter A to Z is
  lower-cased.
\<close>

definition eq_ignore_case :: "string \<Rightarrow> string \<Rightarrow> bool" where
  "eq_ignore_case a b = (toLowerCase a = toLowerCase b)"

subsection \<open>Configuration\<close>

definition BATCH_SIZE :: nat where
  "BATCH_SIZE = 500"

definition MAX_RETRIES :: nat where
  "MAX_RETRIES = 3"

subsection \<open>Helper functions\<close>

text \<open>\<^verbatim>\<open>sqliteToPgType\<close>: a \<^verbatim>\<open>switch\<close> on the upper-cased declared type.\<close>

definition sqliteToPgType :: "string \<Rightarrow> string" where
  "sqliteToPgType sqliteType =
     (let u = toUpperCase sqliteType in
      if u = ''INTEGER'' then ''INTEGER''
      else if u = ''REAL'' then ''DOUBLE PRECISION''
      else if u = ''TEXT'' then ''TEXT''
      else if u = ''BLOB'' then ''BYTEA''
      else ''TEXT'')"

definition reservedKeywords :: "string list" where
  "reservedKeywords =
     [''user'', ''group'', ''order'', ''table'', ''select'', ''where'', ''from'', ''index'',
      ''constraint'']"

text \<open>The double quote character is \<open>CHR 0x22\<close>.\<close>

definition getSafeIdentifier :: "string \<Rightarrow> string" where
  "getSafeIdentifier identifier =
     (if toLowerCase identifier \<in> set reservedKeywords
      then CHR 0x22 # identifier @ [CHR 0x22]
      else identifier)"

subsection \<open>Values, rows and statements\<close>

text \<open>The message of a JavaScript error.\<close>

type_synonym js_error = string

text \<open>
  A value of a row as the SQLite driver hands it over: \<^verbatim>\<open>null\<close>, a number, a string or
  a \<^verbatim>\<open>Buffer\<close> of bytes.
\<close>

datatype js_value = JNull | JNumber real | JString string | JBuffer "char list"

text \<open>A row object: its keys in order, each with its value.\<close>

type_synonym row = "(string \<times> js_value) list"

text \<open>
  An element of the array \<^verbatim>\<open>values\<close> of one row: a piece of SQL text the encoder has
  built, or the value itself where the encoder returns it unchanged (\<^verbatim>\<open>return value\<close>).
\<close>

datatype sql_value = SqlText string | SqlRaw js_value

text \<open>
  The statements the script sends to PostgreSQL.  Each constructor is one of the script's
  SQL templates and carries the parts the script interpolates into it:
  the truncate of a table, the query of \<^verbatim>\<open>information_schema.columns\<close> with its parameter,
  the create-table with its column definitions, the insert of one row with its column
  identifiers and encoded values, and the two transaction directives.
\<close>

datatype pg_stmt =
    Truncate string
  | SelectColumns string
  | CreateTable string "string list"
  | InsertRow string "string list" "sql_value list"
  | Commit
  | Rollback

text \<open>The lines the script prints, one constructor for each call of the console.\<close>

datatype log_line =
    LogRunningIntegrityCheck
  | LogIntegrityCheckFailed
  | LogIntegrityResults string
  | LogQuickCheckFailed
  | LogQuickResults string
  | LogForeignKeyCheckFailed
  | LogForeignKeyIssues "string list"
  | LogIntegrityPassed
  | LogIntegrityError js_error
  | LogAborting
  | LogSkipping string
  | LogProcessingTable string
  | LogTruncating string
  | LogTruncateNote string js_error
  | LogRetry nat nat string js_error
  | LogRowError string js_error
  | LogProcessed nat nat string
  | LogBatchError js_error
  | LogContinueNextBatch
  | LogFailedRowsHeader string
  | LogFailedRow nat js_error
  | LogCompleted nat string
  | LogFailedCount nat string
  | LogMigrationCompleted
  | LogTotalFailedRows nat
  | ErrCritical js_error
  | ErrStackTrace js_error
  | ErrUncaught js_error

subsection \<open>The environment and the state\<close>

text \<open>
  The outcome of every call into the two databases.
  \<^item> \<open>pg_connect\<close>: \<^verbatim>\<open>pgClient.connect()\<close>.
  \<^item> \<open>pg_query\<close>: \<^verbatim>\<open>pgClient.query\<close>; the outcome of a statement may depend on all the
    statements sent before it (the first argument), and its rows are the pairs
    (\<^verbatim>\<open>column_name\<close>, \<^verbatim>\<open>data_type\<close>) for the catalog query.
  \<^item> \<open>integrity_check\<close>, \<open>quick_check\<close>: the status column of the row that
    \<^verbatim>\<open>sqliteDb.get\<close> returns for each of the two pragmas (both always return a row).
  \<^item> \<open>foreign_key_check\<close>: the rows of the foreign-key pragma.
  \<^item> \<open>count_master\<close>: the test query on \<^verbatim>\<open>sqlite_master\<close>.
  \<^item> \<open>list_tables\<close>: the names of the tables of \<^verbatim>\<open>sqlite_master\<close>.
  \<^item> \<open>table_info\<close>: the pairs (\<^verbatim>\<open>name\<close>, \<^verbatim>\<open>type\<close>) of \<^verbatim>\<open>PRAGMA table_info\<close> for a table,
    at the attempt of the given number (from 0).
  \<^item> \<open>count_rows\<close>: \<^verbatim>\<open>SELECT COUNT(*)\<close> on a table.
  \<^item> \<open>select_page\<close>: the page of rows of a table at an offset
    (\<^verbatim>\<open>LIMIT BATCH_SIZE OFFSET processedRows\<close>).  The offset grows in every turn of the
    loop that does not end it, so a table is asked for each offset at most once.
  \<^item> \<open>buffer_utf8\<close>, \<open>buffer_latin1\<close>: \<^verbatim>\<open>Buffer.toString\<close> in the two encodings; the
    script guards the first with a \<^verbatim>\<open>try\<close>.
\<close>

record env =
  pg_connect :: "js_error + unit"
  pg_query :: "pg_stmt list \<Rightarrow> pg_stmt \<Rightarrow> js_error + (string \<times> string) list"
  integrity_check :: "js_error + string"
  quick_check :: "js_error + string"
  foreign_key_check :: "js_error + string list"
  count_master :: "js_error + unit"
  list_tables :: "js_error + string list"
  table_info :: "string \<Rightarrow> nat \<Rightarrow> js_error + (string \<times> string) list"
  count_rows :: "string \<Rightarrow> js_error + nat"
  select_page :: "string \<Rightarrow> nat \<Rightarrow> js_error + row list"
  buffer_utf8 :: "char list \<Rightarrow> js_error + string"
  buffer_latin1 :: "char list \<Rightarrow> string"

text \<open>
  The state of a run: the statements sent to PostgreSQL so far (oldest first), the lines
  printed so far, and the two progress variables of the table in hand.
\<close>

record state =
  pg_sent :: "pg_stmt list"
  console :: "log_line list"
  processedRows :: nat
  failedRows :: "(string \<times> nat \<times> js_error) list"

definition initial_state :: state where
  "initial_state = \<lparr>pg_sent = [], console = [], processedRows = 0, failedRows = []\<rparr>"

definition say :: "log_line list \<Rightarrow> state \<Rightarrow> state" where
  "say ls s = s\<lparr>console := console s @ ls\<rparr>"

text \<open>\<^verbatim>\<open>await pgClient.query(q)\<close>: the statement is sent, and its outcome returned.\<close>

definition pg_exec ::
  "env \<Rightarrow> pg_stmt \<Rightarrow> state \<Rightarrow> (js_error + (string \<times> string) list) \<times> state" where
  "pg_exec e q s = (pg_query e (pg_sent s) q, s\<lparr>pg_sent := pg_sent s @ [q]\<rparr>)"

subsection \<open>The integrity check\<close>

text \<open>
  \<^verbatim>\<open>checkSqliteIntegrity\<close>: the three pragmas are run first, in order, then their results
  are compared, then the test query is run.  Any rejected query ends in the handler of
  the function, which prints the error and returns \<^verbatim>\<open>false\<close>.  The function returns its
  result and the lines it printed.
\<close>

definition checkSqliteIntegrity :: "env \<Rightarrow> bool \<times> log_line list" where
  "checkSqliteIntegrity e =
     (case integrity_check e of
        Inl err \<Rightarrow> (False, [LogRunningIntegrityCheck, LogIntegrityError err])
      | Inr integrityCheck \<Rightarrow>
     (case quick_check e of
        Inl err \<Rightarrow> (False, [LogRunningIntegrityCheck, LogIntegrityError err])
      | Inr quickCheck \<Rightarrow>
     (case foreign_key_check e of
        Inl err \<Rightarrow> (False, [LogRunningIntegrityCheck, LogIntegrityError err])
      | Inr fkCheck \<Rightarrow>
          if integrityCheck \<noteq> ''ok'' then
            (False, [LogRunningIntegrityCheck, LogIntegrityCheckFailed,
                     LogIntegrityResults integrityCheck])
          else if quickCheck \<noteq> ''ok'' then
            (False, [LogRunningIntegrityCheck, LogQuickCheckFailed, LogQuickResults quickCheck])
          else if length fkCheck > 0 then
            (False, [LogRunningIntegrityCheck, LogForeignKeyCheckFailed,
                     LogForeignKeyIssues fkCheck])
          else
            (case count_master e of
               Inl err \<Rightarrow> (False, [LogRunningIntegrityCheck, LogIntegrityError err])
             | Inr _ \<Rightarrow> (True, [LogRunningIntegrityCheck, LogIntegrityPassed])))))"

subsection \<open>The row encoder\<close>

text \<open>The single quote is \<open>CHR 0x27\<close>, the NUL character \<open>CHR 0x00\<close>.\<close>

text \<open>\<^verbatim>\<open>.replace(/\x00/g, '')\<close>\<close>

definition remove_nul :: "string \<Rightarrow> string" where
  "remove_nul s = filter (\<lambda>c. c \<noteq> CHR 0x00) s"

text \<open>\<^verbatim>\<open>.replace(/'/g, "''")\<close>\<close>

definition double_quotes :: "string \<Rightarrow> string" where
  "double_quotes s = concat (map (\<lambda>c. if c = CHR 0x27 then [CHR 0x27, CHR 0x27] else [c]) s)"

text \<open>The template \<^verbatim>\<open>`'${...}'`\<close>\<close>

definition in_quotes :: "string \<Rightarrow> string" where
  "in_quotes s = CHR 0x27 # s @ [CHR 0x27]"

text \<open>The rules after the null rule and the boolean rule.\<close>

fun encode_other :: "env \<Rightarrow> js_value \<Rightarrow> sql_value" where
  "encode_other e (JBuffer b) =
     (case buffer_utf8 e b of
        Inr t \<Rightarrow> SqlText (in_quotes (double_quotes t))
      | Inl _ \<Rightarrow> SqlText (in_quotes (double_quotes (buffer_latin1 e b))))"
| "encode_other e (JString s) = SqlText (in_quotes (double_quotes (remove_nul s)))"
| "encode_other e v = SqlRaw v"

text \<open>
  The callback of \<^verbatim>\<open>Object.entries(row).map\<close>: \<open>pgColumnTypes\<close> is the object built from
  the catalog's answer, \<open>key\<close> the column's name in the row.
\<close>

definition encode_value :: "env \<Rightarrow> (string \<rightharpoonup> string) \<Rightarrow> string \<Rightarrow> js_value \<Rightarrow> sql_value" where
  "encode_value e pgColumnTypes key v =
     (let columnType = pgColumnTypes key in
      if v = JNull then SqlText ''NULL''
      else if columnType = Some ''boolean'' then
        (if v = JNumber 1 then SqlText ''true'' else SqlText ''false'')
      else encode_other e v)"

text \<open>The insert statement of one row.\<close>

definition insert_of :: "env \<Rightarrow> string \<Rightarrow> (string \<rightharpoonup> string) \<Rightarrow> row \<Rightarrow> pg_stmt" where
  "insert_of e safeTableName pgColumnTypes r =
     InsertRow safeTableName
       (map (\<lambda>(key, v). getSafeIdentifier key) r)
       (map (\<lambda>(key, v). encode_value e pgColumnTypes key v) r)"

subsection \<open>The rows of a page\<close>

text \<open>
  The body of \<^verbatim>\<open>for (const row of rows)\<close>: the insert is sent; when it is rejected the
  handler prints the error and pushes the triple onto \<^verbatim>\<open>failedRows\<close>.
\<close>

definition process_row ::
  "env \<Rightarrow> string \<Rightarrow> string \<Rightarrow> (string \<rightharpoonup> string) \<Rightarrow> row \<Rightarrow> state \<Rightarrow> state" where
  "process_row e tableName safeTableName pgColumnTypes r s =
     (case pg_exec e (insert_of e safeTableName pgColumnTypes r) s of
        (Inr _, s') \<Rightarrow> s'
      | (Inl err, s') \<Rightarrow>
          (say [LogRowError tableName err] s')
            \<lparr>failedRows :=
               failedRows s' @ [(tableName, processedRows s' + length (failedRows s'), err)]\<rparr>)"

fun process_rows ::
  "env \<Rightarrow> string \<Rightarrow> string \<Rightarrow> (string \<rightharpoonup> string) \<Rightarrow> row list \<Rightarrow> state \<Rightarrow> state" where
  "process_rows e tableName safeTableName pgColumnTypes [] s = s"
| "process_rows e tableName safeTableName pgColumnTypes (r # rs) s =
     process_rows e tableName safeTableName pgColumnTypes rs
       (process_row e tableName safeTableName pgColumnTypes r s)"

subsection \<open>The paging loop\<close>

text \<open>
  One turn of \<^verbatim>\<open>while (true)\<close>: \<open>Break\<close> leaves the loop, \<open>Continue\<close> starts the next turn.
  The \<^verbatim>\<open>try\<close> block holds the fetch, the rows of the page, the update of
  \<^verbatim>\<open>processedRows\<close> and the commit; its handler serves a rejected fetch and a rejected commit
  alike.
\<close>

datatype turn = Break state | Continue state

definition batch_error :: "js_error \<Rightarrow> state \<Rightarrow> state" where
  "batch_error err s =
     (say [LogBatchError err, LogContinueNextBatch] s)
       \<lparr>processedRows := processedRows s + BATCH_SIZE\<rparr>"

definition page_turn ::
  "env \<Rightarrow> string \<Rightarrow> string \<Rightarrow> (string \<rightharpoonup> string) \<Rightarrow> nat \<Rightarrow> state \<Rightarrow> turn" where
  "page_turn e tableName safeTableName pgColumnTypes totalRows s =
     (case select_page e tableName (processedRows s) of
        Inl err \<Rightarrow> Continue (batch_error err s)
      | Inr rows \<Rightarrow>
          if length rows = 0 then Break s
          else
            let s1 = process_rows e tableName safeTableName pgColumnTypes rows s;
                s2 = s1\<lparr>processedRows := processedRows s1 + length rows\<rparr>;
                s3 = say [LogProcessed (processedRows s2) totalRows tableName] s2
            in (case pg_exec e Commit s3 of
                  (Inr _, s4) \<Rightarrow> Continue s4
                | (Inl err, s4) \<Rightarrow> Continue (batch_error err s4)))"

text \<open>The loop may run forever: \<open>None\<close> is the run that never leaves it.\<close>

partial_function (option) page_loop ::
  "env \<Rightarrow> string \<Rightarrow> string \<Rightarrow> (string \<rightharpoonup> string) \<Rightarrow> nat \<Rightarrow> state \<Rightarrow> state option" where
  "page_loop e tableName safeTableName pgColumnTypes totalRows s =
     (case page_turn e tableName safeTableName pgColumnTypes totalRows s of
        Break s' \<Rightarrow> Some s'
      | Continue s' \<Rightarrow> page_loop e tableName safeTableName pgColumnTypes totalRows s')"

subsection \<open>One table\<close>

text \<open>
  \<^verbatim>\<open>pgSchema.rows.forEach\<close>: the object \<^verbatim>\<open>pgColumnTypes\<close>, a later row overwriting an earlier.
  The object starts as \<^verbatim>\<open>{}\<close>, so the assignment of a string to the key \<^verbatim>\<open>__proto__\<close>
  reaches the setter of \<^verbatim>\<open>Object.prototype\<close> and stores nothing; every other key becomes
  a property of the object.  The map holds the properties of the object itself, the ones
  \<^verbatim>\<open>Object.keys\<close> counts; what a lookup finds for any other key (the prototype, or one of
  its functions) is never the string \<^verbatim>\<open>boolean\<close>.
\<close>

definition build_column_types :: "(string \<times> string) list \<Rightarrow> (string \<rightharpoonup> string)" where
  "build_column_types rows =
     foldl (\<lambda>m (column_name, data_type).
              if column_name = ''__proto__'' then m else m(column_name \<mapsto> data_type))
       Map.empty rows"

text \<open>
  The retry loop around \<^verbatim>\<open>PRAGMA table_info\<close>.  The result is the error thrown
  out of the loop, or the value of \<^verbatim>\<open>schema\<close> after it (\<open>None\<close> is \<^verbatim>\<open>undefined\<close>), and the
  lines printed.
\<close>

function get_schema ::
  "env \<Rightarrow> string \<Rightarrow> nat \<Rightarrow> (js_error + (string \<times> string) list option) \<times> log_line list" where
  "get_schema e tableName retryCount =
     (if retryCount < MAX_RETRIES then
        (case table_info e tableName retryCount of
           Inr rows \<Rightarrow> (Inr (Some rows), [])
         | Inl err \<Rightarrow>
             (let line = LogRetry (retryCount + 1) MAX_RETRIES tableName err in
              if retryCount + 1 = MAX_RETRIES then (Inl err, [line])
              else (case get_schema e tableName (retryCount + 1) of
                      (r, ls) \<Rightarrow> (r, line # ls))))
      else (Inr None, []))"
  by pat_completeness auto
termination
  by (relation "measure (\<lambda>(e, tableName, retryCount). MAX_RETRIES - retryCount)") auto

declare get_schema.simps [simp del]

text \<open>The column definitions of the create-table statement.\<close>

definition column_defs :: "(string \<times> string) list \<Rightarrow> string list" where
  "column_defs schema = map (\<lambda>(n, t). getSafeIdentifier n @ '' '' @ sqliteToPgType t) schema"

text \<open>
  The table is created when \<^verbatim>\<open>pgColumnTypes\<close> has no key.  \<^verbatim>\<open>schema.map\<close> on an undefined
  \<^verbatim>\<open>schema\<close> is a type error.
\<close>

definition create_if_missing ::
  "env \<Rightarrow> string \<Rightarrow> (string \<rightharpoonup> string) \<Rightarrow> (string \<times> string) list option \<Rightarrow> state
     \<Rightarrow> (js_error + unit) \<times> state" where
  "create_if_missing e safeTableName pgColumnTypes schema s =
     (if dom pgColumnTypes = {} then
        (case schema of
           None \<Rightarrow> (Inl ''TypeError'', s)
         | Some cols \<Rightarrow>
             (case pg_exec e (CreateTable safeTableName (column_defs cols)) s of
                (Inl err, s') \<Rightarrow> (Inl err, s')
              | (Inr _, s') \<Rightarrow> (Inr (), s')))
      else (Inr (), s))"

text \<open>The lines printed after the loop of a table.\<close>

definition report_table :: "string \<Rightarrow> state \<Rightarrow> state" where
  "report_table tableName s =
     say ((if length (failedRows s) > 0
           then LogFailedRowsHeader tableName # map (\<lambda>(t, rowNum, err). LogFailedRow rowNum err) (failedRows s)
           else [])
          @ [LogCompleted (processedRows s) tableName,
             LogFailedCount (length (failedRows s)) tableName]) s"

text \<open>
  An entry of \<^verbatim>\<open>tables\<close>: a row of \<^verbatim>\<open>SELECT name FROM sqlite_master\<close>.  The last line of the
  script reads a property \<^verbatim>\<open>failedRows\<close> of the entry; \<open>None\<close> is the entry without it.
\<close>

record table_entry =
  name :: string
  table_failedRows :: "(string \<times> nat \<times> js_error) list option"

text \<open>
  The body of \<^verbatim>\<open>for (const table of tables)\<close>, in the steps the script's comments name.
  A result is \<open>None\<close> when the paging loop never ends; otherwise it is the error thrown out
  of the body, if any, and the state.
\<close>

text \<open>Truncate existing table: a rejected truncate is printed and otherwise ignored.\<close>

definition truncate_table :: "env \<Rightarrow> string \<Rightarrow> string \<Rightarrow> state \<Rightarrow> state" where
  "truncate_table e tableName safeTableName s =
     (case pg_exec e (Truncate safeTableName) (say [LogTruncating tableName] s) of
        (Inl err, s') \<Rightarrow> say [LogTruncateNote tableName err] s'
      | (Inr _, s') \<Rightarrow> s')"

text \<open>Get total count for progress tracking, process data in batches, and report.\<close>

definition copy_rows ::
  "env \<Rightarrow> string \<Rightarrow> string \<Rightarrow> (string \<rightharpoonup> string) \<Rightarrow> state
     \<Rightarrow> ((js_error + unit) \<times> state) option" where
  "copy_rows e tableName safeTableName pgColumnTypes s =
     (case count_rows e tableName of
        Inl err \<Rightarrow> Some (Inl err, s)
      | Inr totalRows \<Rightarrow>
          (case page_loop e tableName safeTableName pgColumnTypes totalRows
                  (s\<lparr>processedRows := 0, failedRows := []\<rparr>) of
             None \<Rightarrow> None
           | Some s' \<Rightarrow> Some (Inr (), report_table tableName s')))"

text \<open>
  Get table schema from SQLite with retries, create the table if it does not exist in
  PostgreSQL, then copy the rows.  \<open>pgColumnTypes\<close> is the object built before this step.
\<close>

definition load_table ::
  "env \<Rightarrow> string \<Rightarrow> string \<Rightarrow> (string \<rightharpoonup> string) \<Rightarrow> state
     \<Rightarrow> ((js_error + unit) \<times> state) option" where
  "load_table e tableName safeTableName pgColumnTypes s =
     (case get_schema e tableName 0 of
        (Inl err, ls) \<Rightarrow> Some (Inl err, say ls s)
      | (Inr schema, ls) \<Rightarrow>
          (case create_if_missing e safeTableName pgColumnTypes schema (say ls s) of
             (Inl err, s') \<Rightarrow> Some (Inl err, s')
           | (Inr _, s') \<Rightarrow> copy_rows e tableName safeTableName pgColumnTypes s'))"

text \<open>
  The whole body: skip the two system tables; otherwise truncate, get the table schema from
  PostgreSQL and build \<open>pgColumnTypes\<close> from it, and go on as above.
\<close>

definition migrate_table ::
  "env \<Rightarrow> table_entry \<Rightarrow> state \<Rightarrow> ((js_error + unit) \<times> state) option" where
  "migrate_table e table s =
     (let tableName = name table in
      if tableName = ''migratehistory'' \<or> tableName = ''alembic_version''
      then Some (Inr (), say [LogSkipping tableName] s)
      else
        let safeTableName = getSafeIdentifier tableName;
            s1 = truncate_table e tableName safeTableName (say [LogProcessingTable tableName] s)
        in (case pg_exec e (SelectColumns safeTableName) s1 of
              (Inl err, s2) \<Rightarrow> Some (Inl err, s2)
            | (Inr pgSchema, s2) \<Rightarrow>
                load_table e tableName safeTableName (build_column_types pgSchema) s2))"

fun migrate_tables ::
  "env \<Rightarrow> table_entry list \<Rightarrow> state \<Rightarrow> ((js_error + unit) \<times> state) option" where
  "migrate_tables e [] s = Some (Inr (), s)"
| "migrate_tables e (table # tables) s =
     (case migrate_table e table s of
        None \<Rightarrow> None
      | Some (Inl err, s') \<Rightarrow> Some (Inl err, s')
      | Some (Inr _, s') \<Rightarrow> migrate_tables e tables s')"

subsection \<open>The whole run\<close>

text \<open>
  \<^verbatim>\<open>tables.reduce((sum, table) => sum + (table.failedRows?.length || 0), 0)\<close>
\<close>

definition totalFailedRows :: "table_entry list \<Rightarrow> nat" where
  "totalFailedRows tables =
     foldl (\<lambda>sum table. sum + (case table_failedRows table of
                                   None \<Rightarrow> 0
                                 | Some rows \<Rightarrow> length rows)) 0 tables"

text \<open>The entries for the names the query returns: objects with the one property \<^verbatim>\<open>name\<close>.\<close>

definition entries_of :: "string list \<Rightarrow> table_entry list" where
  "entries_of names = map (\<lambda>n. \<lparr>name = n, table_failedRows = None\<rparr>) names"

text \<open>The lines after the loop over the tables.\<close>

definition summary :: "table_entry list \<Rightarrow> state \<Rightarrow> state" where
  "summary tables s =
     say (LogMigrationCompleted #
          (if totalFailedRows tables > 0 then [LogTotalFailedRows (totalFailedRows tables)] else [])) s"

text \<open>
  The handler of the outer \<^verbatim>\<open>try\<close>: two lines, then a rollback; a rejected rollback
  rejects \<^verbatim>\<open>migrate()\<close>, which the last line of the script prints.
\<close>

definition critical :: "env \<Rightarrow> js_error \<Rightarrow> state \<Rightarrow> state" where
  "critical e err s =
     (case pg_exec e Rollback (say [ErrCritical err, ErrStackTrace err] s) of
        (Inl err', s') \<Rightarrow> say [ErrUncaught err'] s'
      | (Inr _, s') \<Rightarrow> s')"

text \<open>
  The outcome of a run that ends: the exit code of the process and the final state.
  \<^verbatim>\<open>process.exit(1)\<close> ends the process at once with code 1; a run that returns from
  \<^verbatim>\<open>migrate()\<close>, also by a rejection (printed by \<^verbatim>\<open>.catch(console.error)\<close>), ends with code 0.
  The two \<^verbatim>\<open>PRAGMA\<close> settings at the start, whose errors the script ignores, and the closing
  of the two connections in \<^verbatim>\<open>finally\<close> send no statement and print no line; they are left
  out.
\<close>

record run_result =
  exit_code :: nat
  final :: state

definition migrate :: "env \<Rightarrow> run_result option" where
  "migrate e =
     (case pg_connect e of
        Inl err \<Rightarrow> Some \<lparr>exit_code = 0, final = say [ErrUncaught err] initial_state\<rparr>
      | Inr _ \<Rightarrow>
          (case checkSqliteIntegrity e of (isIntegrityOk, ls) \<Rightarrow>
             if \<not> isIntegrityOk
             then Some \<lparr>exit_code = 1, final = say (ls @ [LogAborting]) initial_state\<rparr>
             else
               (case list_tables e of
                  Inl err \<Rightarrow> Some \<lparr>exit_code = 0, final = critical e err (say ls initial_state)\<rparr>
                | Inr names \<Rightarrow>
                    (case migrate_tables e (entries_of names) (say ls initial_state) of
                       None \<Rightarrow> None
                     | Some (Inl err, s) \<Rightarrow> Some \<lparr>exit_code = 0, final = critical e err s\<rparr>
                     | Some (Inr _, s) \<Rightarrow>
                         Some \<lparr>exit_code = 0, final = summary (entries_of names) s\<rparr>))))"

subsection \<open>Notions of the specification\<close>

text \<open>
  A string is written as a keyword (given in lower-case letters) when it spells the
  keyword letter by letter, each letter in either case, where the letter i may also be
  spelled by the dotless i (U+0131, the bytes \<open>0xC4 0xB1\<close>).
\<close>

fun written_as :: "string \<Rightarrow> string \<Rightarrow> bool" where
  "written_as [] [] = True"
| "written_as [] (k # ks) = False"
| "written_as (c # cs) [] = False"
| "written_as (c # cs) (k # ks) =
     ((toLowerCase_char c = k \<and> written_as cs ks)
      \<or> (k = CHR ''i'' \<and> c = CHR 0xC4
          \<and> (case cs of [] \<Rightarrow> False | d # ds \<Rightarrow> d = CHR 0xB1 \<and> written_as ds ks)))"

text \<open>
  Reading the body of a quoted literal back: every single quote must come with its double,
  and the pair stands for one quote.  \<open>None\<close> is a body with a lone quote, which would end
  the literal early.
\<close>

fun undouble :: "string \<Rightarrow> string option" where
  "undouble [] = Some []"
| "undouble (c # cs) =
     (if c = CHR 0x27 then
        (case cs of
           [] \<Rightarrow> None
         | d # ds \<Rightarrow> if d = CHR 0x27 then map_option ((#) CHR 0x27) (undouble ds) else None)
      else map_option ((#) c) (undouble cs))"

text \<open>
  The order of statements the specification describes for the destination column map: every
  create-table statement is followed, later in the run, by a catalog query for the same table.
\<close>

fun catalog_read_after_create :: "pg_stmt list \<Rightarrow> bool" where
  "catalog_read_after_create [] = True"
| "catalog_read_after_create (CreateTable t cols # rest) =
     (SelectColumns t \<in> set rest \<and> catalog_read_after_create rest)"
| "catalog_read_after_create (q # rest) = catalog_read_after_create rest"

subsection \<open>Example runs\<close>

text \<open>
  A source with one table \<open>items\<close> of three rows, which the destination already has; the
  destination rejects the insert of the third row.
\<close>

definition sample_rows :: "row list" where
  "sample_rows = [[(''id'', JNumber 1)], [(''id'', JNumber 2)], [(''id'', JNumber 3)]]"

definition sample_env :: env where
  "sample_env =
     \<lparr>pg_connect = Inr (),
      pg_query = (\<lambda>sent q.
         case q of
           SelectColumns t \<Rightarrow> Inr [(''id'', ''integer'')]
         | InsertRow t cols vals \<Rightarrow>
             if vals = [SqlRaw (JNumber 3)] then Inl ''duplicate key'' else Inr []
         | _ \<Rightarrow> Inr []),
      integrity_check = Inr ''ok'',
      quick_check = Inr ''ok'',
      foreign_key_check = Inr [],
      count_master = Inr (),
      list_tables = Inr [''items''],
      table_info = (\<lambda>t k. Inr [(''id'', ''INTEGER'')]),
      count_rows = (\<lambda>t. Inr 3),
      select_page = (\<lambda>t offset. if offset = 0 then Inr sample_rows else Inr []),
      buffer_utf8 = (\<lambda>b. Inr b),
      buffer_latin1 = (\<lambda>b. b)\<rparr>"

text \<open>
  The same source and a destination without the table: the catalog reports the column of
  \<open>items\<close> only once a create-table statement for it has been sent.
\<close>

definition creates :: "string \<Rightarrow> pg_stmt \<Rightarrow> bool" where
  "creates t q = (case q of CreateTable t' cols \<Rightarrow> t' = t | _ \<Rightarrow> False)"

definition fresh_env :: env where
  "fresh_env =
     sample_env\<lparr>pg_query := (\<lambda>sent q.
       case q of
         SelectColumns t \<Rightarrow> if list_ex (creates t) sent then Inr [(''id'', ''integer'')] else Inr []
       | _ \<Rightarrow> Inr [])\<rparr>"

text \<open>The same source and a destination whose connection is lost when the page is committed.\<close>

definition lost_connection_env :: env where
  "lost_connection_env =
     sample_env\<lparr>pg_query := (\<lambda>sent q.
       case q of
         SelectColumns t \<Rightarrow> Inr [(''id'', ''integer'')]
       | Commit \<Rightarrow> Inl ''Connection terminated unexpectedly''
       | _ \<Rightarrow> Inr [])\<rparr>"

text \<open>A source that is locked at the first two attempts to read a schema, and one that stays locked.\<close>

definition flaky_env :: env where
  "flaky_env =
     sample_env\<lparr>table_info := (\<lambda>t k.
       if k < 2 then Inl ''database is locked'' else Inr [(''id'', ''INTEGER'')])\<rparr>"

definition locked_env :: env where
  "locked_env = sample_env\<lparr>table_info := (\<lambda>t k. Inl ''database is locked'')\<rparr>"

text \<open>A source whose integrity scan reports damage.\<close>

definition corrupt_env :: env where
  "corrupt_env = sample_env\<lparr>integrity_check := Inr ''row 7 missing from index''\<rparr>"

section \<open>Properties\<close>

subsection \<open>Letter case\<close>

lemmas case_defs = toLowerCase_def toUpperCase_char_def toLowerCase_char_def
  lower_letters_def upper_letters_def

lemma toLowerCase_char_toUpperCase_char: "toLowerCase_char (toUpperCase_char c) = toLowerCase_char c"
  unfolding toLowerCase_char_def toUpperCase_char_def lower_letters_def upper_letters_def
  by simp

lemma toUpperCase_char_toLowerCase_char: "toUpperCase_char (toLowerCase_char c) = toUpperCase_char c"
  unfolding toLowerCase_char_def toUpperCase_char_def lower_letters_def upper_letters_def
  by simp

lemma toLowerCase_char_lower:
  assumes "k \<in> set lower_letters"
  shows "toLowerCase_char k = k"
proof -
  from assms have "List.member lower_letters k"
    by simp
  then show ?thesis
    unfolding lower_letters_def List.member_code
    by (elim disjE; (hypsubst)?; simp add: toLowerCase_char_def upper_letters_def lower_letters_def)
qed

lemma same_upper_iff:
  assumes "k \<in> set lower_letters"
  shows "toUpperCase_char c = toUpperCase_char k \<longleftrightarrow> toLowerCase_char c = k"
  by (metis assms toLowerCase_char_lower toLowerCase_char_toUpperCase_char
      toUpperCase_char_toLowerCase_char)

lemma upper_i_iff:
  assumes "k \<in> set lower_letters"
  shows "CHR ''I'' = toUpperCase_char k \<longleftrightarrow> k = CHR ''i''"
proof -
  have up: "toUpperCase_char (CHR ''I'') = CHR ''I''"
    and low: "toLowerCase_char (CHR ''I'') = CHR ''i''"
    by (simp_all add: toUpperCase_char_def toLowerCase_char_def lower_letters_def
        upper_letters_def)
  from same_upper_iff [OF assms, of "CHR ''I''"] show ?thesis
    unfolding up low by auto
qed

lemma not_letter_C4: "toLowerCase_char (CHR 0xC4) \<notin> set lower_letters"
  by (simp add: toLowerCase_char_def lower_letters_def upper_letters_def)

lemma toUpperCase_eq_keyword:
  assumes "set k \<subseteq> set lower_letters"
  shows "toUpperCase t = map toUpperCase_char k \<longleftrightarrow> written_as t k"
  using assms
proof (induction t arbitrary: k rule: toUpperCase.induct)
  case 1
  then show ?case by (cases k) simp_all
next
  case (2 c)
  show ?case
  proof (cases k)
    case Nil
    then show ?thesis by simp
  next
    case (Cons k1 ks)
    with 2 have "k1 \<in> set lower_letters" by simp
    from same_upper_iff [OF this] Cons show ?thesis
      by (cases ks) auto
  qed
next
  case (3 c d cs)
  show ?case
  proof (cases k)
    case Nil
    then show ?thesis by simp
  next
    case (Cons k1 ks)
    with 3 have k1: "k1 \<in> set lower_letters" and ks: "set ks \<subseteq> set lower_letters"
      by simp_all
    show ?thesis
    proof (cases "c = CHR 0xC4 \<and> d = CHR 0xB1")
      case True
      have "toLowerCase_char c \<noteq> k1"
        using True k1 not_letter_C4 by auto
      with True Cons "3.IH"(1) [OF True ks] upper_i_iff [OF k1] show ?thesis
        by auto
    next
      case False
      with Cons "3.IH"(2) [OF False ks] same_upper_iff [OF k1, of c] show ?thesis
        by auto
    qed
  qed
qed

lemma toUpperCase_is_keyword:
  "toUpperCase t = ''INTEGER'' \<longleftrightarrow> written_as t ''integer''"
  "toUpperCase t = ''REAL'' \<longleftrightarrow> written_as t ''real''"
  "toUpperCase t = ''TEXT'' \<longleftrightarrow> written_as t ''text''"
  "toUpperCase t = ''BLOB'' \<longleftrightarrow> written_as t ''blob''"
  using toUpperCase_eq_keyword [of "''integer''" t] toUpperCase_eq_keyword [of "''real''" t]
    toUpperCase_eq_keyword [of "''text''" t] toUpperCase_eq_keyword [of "''blob''" t]
  by (simp_all add: toUpperCase_char_def lower_letters_def upper_letters_def)

lemma eq_ignore_case_examples:
  "eq_ignore_case ''Integer'' ''integer''" "\<not> eq_ignore_case ''Integer'' ''real''"
  by (simp_all add: eq_ignore_case_def case_defs)

lemmas ident_defs = getSafeIdentifier_def reservedKeywords_def toLowerCase_def
  toLowerCase_char_def upper_letters_def lower_letters_def

lemma safe_items: "getSafeIdentifier ''items'' = ''items''" "getSafeIdentifier ''id'' = ''id''"
  by (simp_all add: ident_defs)

subsection \<open>The type translator\<close>

text \<open>
  Claim C3, as stated, fails at one declared type: \<^verbatim>\<open>toUpperCase\<close> turns the dotless i
  (U+0131) into the letter I, so the declared type spelled with a dotless i in place of the
  i of \<^verbatim>\<open>integer\<close>, which is none of the four keywords when case is ignored, gives
  \<^verbatim>\<open>INTEGER\<close> and not \<^verbatim>\<open>TEXT\<close>.
\<close>

theorem dotless_i_integer_not_text:
  "\<not> eq_ignore_case ([CHR 0xC4, CHR 0xB1] @ ''nteger'') ''integer''
   \<and> \<not> eq_ignore_case ([CHR 0xC4, CHR 0xB1] @ ''nteger'') ''real''
   \<and> \<not> eq_ignore_case ([CHR 0xC4, CHR 0xB1] @ ''nteger'') ''text''
   \<and> \<not> eq_ignore_case ([CHR 0xC4, CHR 0xB1] @ ''nteger'') ''blob''
   \<and> sqliteToPgType ([CHR 0xC4, CHR 0xB1] @ ''nteger'') = ''INTEGER''
   \<and> sqliteToPgType ([CHR 0xC4, CHR 0xB1] @ ''nteger'') \<noteq> ''TEXT''"
  by (simp add: eq_ignore_case_def sqliteToPgType_def case_defs)

text \<open>
  Claim C3, amended.  For every declared type string, \<^verbatim>\<open>sqliteToPgType\<close> answers by the
  keyword the string is written as, each letter in either case and the letter i also as
  the dotless i: \<^verbatim>\<open>integer\<close> gives \<^verbatim>\<open>INTEGER\<close>, \<^verbatim>\<open>real\<close> gives \<^verbatim>\<open>DOUBLE PRECISION\<close>,
  \<^verbatim>\<open>text\<close> gives \<^verbatim>\<open>TEXT\<close>, \<^verbatim>\<open>blob\<close> gives the binary type \<^verbatim>\<open>BYTEA\<close>, and every other
  string gives \<^verbatim>\<open>TEXT\<close>.
\<close>

theorem sqliteToPgType_case_insensitive:
  "sqliteToPgType t =
     (if written_as t ''integer'' then ''INTEGER''
      else if written_as t ''real'' then ''DOUBLE PRECISION''
      else if written_as t ''text'' then ''TEXT''
      else if written_as t ''blob'' then ''BYTEA''
      else ''TEXT'')"
  by (simp only: sqliteToPgType_def Let_def toUpperCase_is_keyword)

text \<open>
  The translator on mixed-case keywords, on two declared types outside the table, and on
  the keyword spelled with a dotless i.
\<close>

theorem sqliteToPgType_case_insensitive_witness:
  "sqliteToPgType ''Integer'' = ''INTEGER'' \<and> sqliteToPgType ''rEAL'' = ''DOUBLE PRECISION''
   \<and> sqliteToPgType ''text'' = ''TEXT'' \<and> sqliteToPgType ''BLOB'' = ''BYTEA''
   \<and> sqliteToPgType ''VARCHAR(255)'' = ''TEXT'' \<and> sqliteToPgType ''INT'' = ''TEXT''
   \<and> sqliteToPgType ([CHR 0xC4, CHR 0xB1] @ ''nteger'') = ''INTEGER''"
  using sqliteToPgType_case_insensitive [of "''Integer''"]
    sqliteToPgType_case_insensitive [of "''rEAL''"]
    sqliteToPgType_case_insensitive [of "''text''"]
    sqliteToPgType_case_insensitive [of "''BLOB''"]
    sqliteToPgType_case_insensitive [of "''VARCHAR(255)''"]
    sqliteToPgType_case_insensitive [of "''INT''"]
    sqliteToPgType_case_insensitive [of "[CHR 0xC4, CHR 0xB1] @ ''nteger''"]
  by (simp add: toLowerCase_char_def upper_letters_def lower_letters_def)

subsection \<open>Safe identifiers\<close>

text \<open>
  Claim C4.  For every identifier, \<^verbatim>\<open>getSafeIdentifier\<close> returns the identifier between two
  double quotes, its characters unchanged, when its lower-cased form is one of the reserved
  words, and returns the identifier itself otherwise.
\<close>

theorem getSafeIdentifier_reserved:
  "getSafeIdentifier s =
     (if toLowerCase s \<in> set reservedKeywords then CHR 0x22 # s @ [CHR 0x22] else s)"
  by (simp add: getSafeIdentifier_def)

text \<open>
  A reserved word in mixed case is quoted as it was written; a longer name is left alone.
\<close>

theorem getSafeIdentifier_reserved_witness:
  "getSafeIdentifier ''User'' = CHR 0x22 # ''User'' @ [CHR 0x22]
   \<and> getSafeIdentifier ''users'' = ''users''"
  using getSafeIdentifier_reserved [of "''User''"] getSafeIdentifier_reserved [of "''users''"]
  by (simp add: reservedKeywords_def case_defs)

text \<open>
  Since the reserved words are written in lower case, the test is a case-insensitive match.
\<close>

lemma reserved_iff_ignore_case:
  "toLowerCase s \<in> set reservedKeywords \<longleftrightarrow> (\<exists>w \<in> set reservedKeywords. eq_ignore_case s w)"
  by (simp add: reservedKeywords_def eq_ignore_case_def case_defs)

subsection \<open>The row encoder\<close>

text \<open>
  Claim C6.  The encoder applies its rules in order.  A null value encodes to the keyword
  \<^verbatim>\<open>NULL\<close> whatever the type of the column.  Otherwise, when the destination reports the
  type of the column as boolean, the value 1 encodes to \<^verbatim>\<open>true\<close> and every other
  non-null value to \<^verbatim>\<open>false\<close>.
\<close>

theorem encode_value_null_then_boolean:
  "encode_value e pgColumnTypes key JNull = SqlText ''NULL'' \<and>
   (v \<noteq> JNull \<longrightarrow> pgColumnTypes key = Some ''boolean'' \<longrightarrow>
      encode_value e pgColumnTypes key v = SqlText (if v = JNumber 1 then ''true'' else ''false''))"
  by (simp add: encode_value_def)

text \<open>
  A boolean column with a null, the number 1, the number 0 and the string \<^verbatim>\<open>1\<close>.
\<close>

theorem encode_value_null_then_boolean_witness:
  "encode_value sample_env [''active'' \<mapsto> ''boolean''] ''active'' JNull = SqlText ''NULL''
   \<and> encode_value sample_env [''active'' \<mapsto> ''boolean''] ''active'' (JNumber 1) = SqlText ''true''
   \<and> encode_value sample_env [''active'' \<mapsto> ''boolean''] ''active'' (JNumber 0) = SqlText ''false''
   \<and> encode_value sample_env [''active'' \<mapsto> ''boolean''] ''active'' (JString ''1'') = SqlText ''false''"
  using encode_value_null_then_boolean [of sample_env "[''active'' \<mapsto> ''boolean'']" "''active''" "JNumber 1"]
    encode_value_null_then_boolean [of sample_env "[''active'' \<mapsto> ''boolean'']" "''active''" "JNumber 0"]
    encode_value_null_then_boolean [of sample_env "[''active'' \<mapsto> ''boolean'']" "''active''" "JString ''1''"]
  by simp

lemma undouble_double_quotes: "undouble (double_quotes t) = Some t"
  by (induction t) (simp_all add: double_quotes_def)

lemma nul_not_in_remove_nul: "CHR 0x00 \<notin> set (remove_nul s)"
  by (simp add: remove_nul_def)

lemma set_double_quotes: "set (double_quotes t) = set t"
  by (induction t) (auto simp: double_quotes_def)

lemma count_double_quotes:
  "count_list (double_quotes t) (CHR 0x27) = 2 * count_list t (CHR 0x27)"
  by (induction t) (simp_all add: double_quotes_def)

text \<open>
  Claim C7, as stated for every text value, fails where the boolean rule comes first: in
  a column the destination reports as boolean the text \<^verbatim>\<open>it's\<close> encodes to \<^verbatim>\<open>false\<close>, which
  is not the quoted literal of that text.
\<close>

theorem text_in_boolean_column_not_quoted:
  "encode_value sample_env [''active'' \<mapsto> ''boolean''] ''active'' (JString (''it'' @ [CHR 0x27] @ ''s''))
     = SqlText ''false''
   \<and> encode_value sample_env [''active'' \<mapsto> ''boolean''] ''active'' (JString (''it'' @ [CHR 0x27] @ ''s''))
     \<noteq> SqlText (in_quotes (double_quotes (remove_nul (''it'' @ [CHR 0x27] @ ''s''))))"
  by (simp add: encode_value_def in_quotes_def)

text \<open>
  Claim C7, amended.  For every text value in a column that the destination does not report
  as boolean, the encoder removes every NUL character, doubles every single quote and wraps
  the result in single quotes: the body between the outer quotes holds no NUL, holds twice
  as many quotes as the text, and read back as a quoted literal (each pair of quotes
  standing for one quote) it is the text without its NUL characters.
\<close>

theorem encode_text_literal:
  assumes "pgColumnTypes key \<noteq> Some ''boolean''"
  shows "encode_value e pgColumnTypes key (JString s) =
           SqlText (CHR 0x27 # double_quotes (remove_nul s) @ [CHR 0x27])
         \<and> CHR 0x00 \<notin> set (double_quotes (remove_nul s))
         \<and> undouble (double_quotes (remove_nul s)) = Some (filter (\<lambda>c. c \<noteq> CHR 0x00) s)
         \<and> count_list (double_quotes (remove_nul s)) (CHR 0x27) = 2 * count_list s (CHR 0x27)"
proof -
  let ?body = "double_quotes (remove_nul s)"
  have "encode_value e pgColumnTypes key (JString s) = SqlText (CHR 0x27 # ?body @ [CHR 0x27])"
    using assms by (simp add: encode_value_def in_quotes_def)
  moreover have "CHR 0x00 \<notin> set ?body"
    by (simp add: set_double_quotes nul_not_in_remove_nul)
  moreover have "undouble ?body = Some (filter (\<lambda>c. c \<noteq> CHR 0x00) s)"
    using undouble_double_quotes [of "remove_nul s"] by (simp add: remove_nul_def)
  moreover have "count_list (remove_nul s) (CHR 0x27) = count_list s (CHR 0x27)"
    by (induction s) (simp_all add: remove_nul_def)
  then have "count_list ?body (CHR 0x27) = 2 * count_list s (CHR 0x27)"
    by (simp add: count_double_quotes)
  ultimately show ?thesis by blast
qed

text \<open>
  A text with a quote and a NUL character in a column the destination does not know.
\<close>

theorem encode_text_literal_witness:
  "Map.empty ''name'' \<noteq> Some ''boolean''
   \<and> encode_value sample_env Map.empty ''name'' (JString (''it'' @ [CHR 0x27, CHR 0x00] @ ''s''))
     = SqlText (CHR 0x27 # (''it'' @ [CHR 0x27, CHR 0x27] @ ''s'') @ [CHR 0x27])
   \<and> undouble (''it'' @ [CHR 0x27, CHR 0x27] @ ''s'') = Some (''it'' @ [CHR 0x27] @ ''s'')"
  using encode_text_literal [of Map.empty "''name''" sample_env "''it'' @ [CHR 0x27, CHR 0x00] @ ''s''"]
  by (simp add: remove_nul_def double_quotes_def)

text \<open>
  Without the boolean rule no value encodes to one of the two boolean keywords.
\<close>

lemma encode_value_not_boolean:
  assumes "m key \<noteq> Some ''boolean''"
  shows "encode_value e m key v \<noteq> SqlText ''true'' \<and> encode_value e m key v \<noteq> SqlText ''false''"
  using assms
  by (cases v) (simp_all add: encode_value_def in_quotes_def split: sum.splits)

lemma insert_of_no_boolean:
  assumes "dom m = {}" and "insert_of e st m r = InsertRow st' cs vs"
  shows "SqlText ''true'' \<notin> set vs \<and> SqlText ''false'' \<notin> set vs"
proof -
  from assms(1) have none: "\<And>key. m key \<noteq> Some ''boolean''"
    by (auto simp: dom_def)
  from assms(2) have vs: "vs = map (\<lambda>(key, v). encode_value e m key v) r"
    by (simp add: insert_of_def)
  have enc: "encode_value e m key v \<noteq> SqlText ''true''"
    "encode_value e m key v \<noteq> SqlText ''false''" for key v
    using encode_value_not_boolean [of m key e v] none by blast+
  show ?thesis
    unfolding vs by (auto simp: enc [symmetric] split: prod.splits)
qed

subsection \<open>The integrity check\<close>

text \<open>
  Claim C5.  \<^verbatim>\<open>checkSqliteIntegrity\<close> returns \<^verbatim>\<open>false\<close> exactly when the full scan reports a
  status other than \<^verbatim>\<open>ok\<close>, or the quick scan does, or the foreign-key check returns a
  violation, or one of the queries of the function is rejected.  When it returns
  \<^verbatim>\<open>false\<close> in a run that has connected to the destination, the run ends with exit code 1
  and has sent no statement to the destination.
\<close>

theorem checkSqliteIntegrity_fails_iff:
  "(\<not> fst (checkSqliteIntegrity e) \<longleftrightarrow>
      (\<exists>status. integrity_check e = Inr status \<and> status \<noteq> ''ok'')
      \<or> (\<exists>status. quick_check e = Inr status \<and> status \<noteq> ''ok'')
      \<or> (\<exists>issues. foreign_key_check e = Inr issues \<and> issues \<noteq> [])
      \<or> isl (integrity_check e) \<or> isl (quick_check e) \<or> isl (foreign_key_check e)
      \<or> isl (count_master e))
   \<and> (pg_connect e = Inr () \<longrightarrow> \<not> fst (checkSqliteIntegrity e) \<longrightarrow>
        (\<exists>r. migrate e = Some r \<and> exit_code r = 1 \<and> pg_sent (final r) = []))"
proof
  show "\<not> fst (checkSqliteIntegrity e) \<longleftrightarrow>
      (\<exists>status. integrity_check e = Inr status \<and> status \<noteq> ''ok'')
      \<or> (\<exists>status. quick_check e = Inr status \<and> status \<noteq> ''ok'')
      \<or> (\<exists>issues. foreign_key_check e = Inr issues \<and> issues \<noteq> [])
      \<or> isl (integrity_check e) \<or> isl (quick_check e) \<or> isl (foreign_key_check e)
      \<or> isl (count_master e)"
    by (cases "integrity_check e"; cases "quick_check e"; cases "foreign_key_check e";
        cases "count_master e") (simp_all add: checkSqliteIntegrity_def)
next
  show "pg_connect e = Inr () \<longrightarrow> \<not> fst (checkSqliteIntegrity e) \<longrightarrow>
        (\<exists>r. migrate e = Some r \<and> exit_code r = 1 \<and> pg_sent (final r) = [])"
    by (cases "checkSqliteIntegrity e") (simp add: migrate_def say_def initial_state_def)
qed

text \<open>
  A source whose full scan reports damage: the run prints the result and exits with code 1.
\<close>

theorem checkSqliteIntegrity_fails_iff_witness:
  "pg_connect corrupt_env = Inr () \<and> \<not> fst (checkSqliteIntegrity corrupt_env)
   \<and> integrity_check corrupt_env = Inr ''row 7 missing from index''
   \<and> migrate corrupt_env =
       Some \<lparr>exit_code = 1,
             final = \<lparr>pg_sent = [],
                      console = [LogRunningIntegrityCheck, LogIntegrityCheckFailed,
                                 LogIntegrityResults ''row 7 missing from index'', LogAborting],
                      processedRows = 0, failedRows = []\<rparr>\<rparr>"
proof -
  have c: "pg_connect corrupt_env = Inr ()"
    by (simp add: corrupt_env_def sample_env_def)
  have f: "\<not> fst (checkSqliteIntegrity corrupt_env)"
    by (simp add: checkSqliteIntegrity_def corrupt_env_def sample_env_def)
  from checkSqliteIntegrity_fails_iff [of corrupt_env] c f
  obtain r where "migrate corrupt_env = Some r" "exit_code r = 1" "pg_sent (final r) = []"
    by blast
  then show ?thesis
    using c f
    by (simp add: migrate_def checkSqliteIntegrity_def corrupt_env_def sample_env_def
        say_def initial_state_def)
qed

subsection \<open>The retry loop\<close>

lemma get_schema_success:
  assumes "k < MAX_RETRIES" "r \<le> k" "\<forall>j. r \<le> j \<and> j < k \<longrightarrow> isl (table_info e t j)"
    "table_info e t k = Inr rows"
  shows "get_schema e t r =
           (Inr (Some rows),
            map (\<lambda>j. LogRetry (j + 1) MAX_RETRIES t (projl (table_info e t j))) [r..<k])"
  using assms
proof (induction "k - r" arbitrary: r)
  case 0
  then have "r = k" by simp
  with 0 show ?case
    by (subst get_schema.simps) simp
next
  case (Suc d)
  then have lt: "r < k" by simp
  with Suc.prems obtain err where err: "table_info e t r = Inl err"
    by (metis isl_def order_refl)
  have step: "get_schema e t (Suc r) =
           (Inr (Some rows),
            map (\<lambda>j. LogRetry (j + 1) MAX_RETRIES t (projl (table_info e t j))) [Suc r..<k])"
    using Suc.hyps Suc.prems lt by (intro Suc.hyps(1)) auto
  have "r + 1 \<noteq> MAX_RETRIES" "r < MAX_RETRIES"
    using lt Suc.prems(1) by simp_all
  then show ?case
    using lt by (subst get_schema.simps) (simp add: err step upt_conv_Cons)
qed

lemma get_schema_failure:
  assumes "r < MAX_RETRIES" "\<forall>j. r \<le> j \<and> j < MAX_RETRIES \<longrightarrow> isl (table_info e t j)"
  shows "get_schema e t r =
           (Inl (projl (table_info e t (MAX_RETRIES - 1))),
            map (\<lambda>j. LogRetry (j + 1) MAX_RETRIES t (projl (table_info e t j))) [r..<MAX_RETRIES])"
  using assms
proof (induction "MAX_RETRIES - r" arbitrary: r)
  case 0
  then show ?case by simp
next
  case (Suc d)
  from Suc.prems obtain err where err: "table_info e t r = Inl err"
    by (metis isl_def order_refl)
  show ?case
  proof (cases "r + 1 = MAX_RETRIES")
    case True
    then have "[r..<MAX_RETRIES] = [r]" "MAX_RETRIES - 1 = r"
      by (auto simp: upt_conv_Cons)
    with True Suc.prems(1) show ?thesis
      by (subst get_schema.simps) (simp add: err)
  next
    case False
    with Suc.prems(1) have lt: "r + 1 < MAX_RETRIES" by simp
    have step: "get_schema e t (Suc r) =
           (Inl (projl (table_info e t (MAX_RETRIES - 1))),
            map (\<lambda>j. LogRetry (j + 1) MAX_RETRIES t (projl (table_info e t j)))
              [Suc r..<MAX_RETRIES])"
      using Suc.hyps Suc.prems lt by (intro Suc.hyps(1)) auto
    show ?thesis
      using False Suc.prems(1)
      by (subst get_schema.simps) (simp add: err step upt_conv_Cons)
  qed
qed

lemma get_schema_reads_below_bound:
  assumes "\<forall>j. r \<le> j \<and> j < MAX_RETRIES \<longrightarrow> table_info e' t j = table_info e t j"
  shows "get_schema e' t r = get_schema e t r"
  using assms
proof (induction "MAX_RETRIES - r" arbitrary: r)
  case 0
  then show ?case
    by (subst (1 2) get_schema.simps) simp
next
  case (Suc d)
  then have lt: "r < MAX_RETRIES" by simp
  with Suc.prems have same: "table_info e' t r = table_info e t r" by simp
  have step: "r + 1 \<noteq> MAX_RETRIES \<Longrightarrow> get_schema e' t (Suc r) = get_schema e t (Suc r)"
    using Suc.hyps Suc.prems by (intro Suc.hyps(1)) auto
  show ?case
    by (subst (1 2) get_schema.simps) (simp add: same step Let_def split: sum.splits)
qed

lemma load_table_schema_failure:
  assumes "\<forall>j < MAX_RETRIES. isl (table_info e t j)"
  shows "load_table e t st m s =
           Some (Inl (projl (table_info e t (MAX_RETRIES - 1))),
                 say (map (\<lambda>j. LogRetry (j + 1) MAX_RETRIES t (projl (table_info e t j)))
                        [0..<MAX_RETRIES]) s)"
proof -
  have "get_schema e t 0 =
        (Inl (projl (table_info e t (MAX_RETRIES - 1))),
         map (\<lambda>j. LogRetry (j + 1) MAX_RETRIES t (projl (table_info e t j))) [0..<MAX_RETRIES])"
    using assms by (intro get_schema_failure) (simp_all add: MAX_RETRIES_def)
  then show ?thesis
    by (simp add: load_table_def)
qed

text \<open>
  Claim C9.  The schema of a table is read from the source at most \<^verbatim>\<open>MAX_RETRIES\<close> times,
  one attempt after the other.  The first attempt that succeeds ends the loop and gives the
  schema, after one printed line for each failed attempt before it.  When every attempt
  fails, the error of the last attempt is thrown out of the loop and out of the
  processing of the table.  The outcome depends on no attempt beyond the bound.
\<close>

theorem get_schema_bounded_retry:
  "(\<forall>k < MAX_RETRIES. (\<forall>j < k. isl (table_info e t j)) \<longrightarrow> table_info e t k = Inr rows \<longrightarrow>
      get_schema e t 0 =
        (Inr (Some rows),
         map (\<lambda>j. LogRetry (j + 1) MAX_RETRIES t (projl (table_info e t j))) [0..<k]))
   \<and> ((\<forall>j < MAX_RETRIES. isl (table_info e t j)) \<longrightarrow>
      get_schema e t 0 =
        (Inl (projl (table_info e t (MAX_RETRIES - 1))),
         map (\<lambda>j. LogRetry (j + 1) MAX_RETRIES t (projl (table_info e t j))) [0..<MAX_RETRIES])
      \<and> load_table e t st m s =
           Some (Inl (projl (table_info e t (MAX_RETRIES - 1))),
                 say (map (\<lambda>j. LogRetry (j + 1) MAX_RETRIES t (projl (table_info e t j)))
                        [0..<MAX_RETRIES]) s))
   \<and> ((\<forall>j < MAX_RETRIES. table_info e' t j = table_info e t j) \<longrightarrow>
      get_schema e' t 0 = get_schema e t 0)"
proof (intro conjI allI impI)
  fix k
  assume "k < MAX_RETRIES" "\<forall>j<k. isl (table_info e t j)" "table_info e t k = Inr rows"
  then show "get_schema e t 0 =
        (Inr (Some rows),
         map (\<lambda>j. LogRetry (j + 1) MAX_RETRIES t (projl (table_info e t j))) [0..<k])"
    by (intro get_schema_success) simp_all
next
  assume "\<forall>j < MAX_RETRIES. isl (table_info e t j)"
  then show "get_schema e t 0 =
        (Inl (projl (table_info e t (MAX_RETRIES - 1))),
         map (\<lambda>j. LogRetry (j + 1) MAX_RETRIES t (projl (table_info e t j))) [0..<MAX_RETRIES])"
    by (intro get_schema_failure) (simp_all add: MAX_RETRIES_def)
next
  assume "\<forall>j < MAX_RETRIES. isl (table_info e t j)"
  then show "load_table e t st m s =
           Some (Inl (projl (table_info e t (MAX_RETRIES - 1))),
                 say (map (\<lambda>j. LogRetry (j + 1) MAX_RETRIES t (projl (table_info e t j)))
                        [0..<MAX_RETRIES]) s)"
    by (rule load_table_schema_failure)
next
  assume "\<forall>j < MAX_RETRIES. table_info e' t j = table_info e t j"
  then show "get_schema e' t 0 = get_schema e t 0"
    by (intro get_schema_reads_below_bound) simp
qed

text \<open>
  A source that is locked twice and then answers, and a source that stays locked.
\<close>

theorem get_schema_bounded_retry_witness:
  "get_schema flaky_env ''items'' 0 =
     (Inr (Some [(''id'', ''INTEGER'')]),
      [LogRetry 1 3 ''items'' ''database is locked'', LogRetry 2 3 ''items'' ''database is locked''])
   \<and> get_schema locked_env ''items'' 0 =
     (Inl ''database is locked'',
      [LogRetry 1 3 ''items'' ''database is locked'', LogRetry 2 3 ''items'' ''database is locked'',
       LogRetry 3 3 ''items'' ''database is locked''])
   \<and> load_table locked_env ''items'' ''items'' Map.empty initial_state =
     Some (Inl ''database is locked'',
           \<lparr>pg_sent = [],
            console = [LogRetry 1 3 ''items'' ''database is locked'',
                       LogRetry 2 3 ''items'' ''database is locked'',
                       LogRetry 3 3 ''items'' ''database is locked''],
            processedRows = 0, failedRows = []\<rparr>)"
proof -
  have upt: "[0..<3] = [0, 1, 2::nat]" "[0..<2] = [0, 1::nat]"
    by (simp_all add: upt_rec)
  have flaky: "2 < MAX_RETRIES" "\<forall>j<2. isl (table_info flaky_env ''items'' j)"
    "table_info flaky_env ''items'' 2 = Inr [(''id'', ''INTEGER'')]"
    by (simp_all add: MAX_RETRIES_def flaky_env_def sample_env_def)
  have locked: "\<forall>j<MAX_RETRIES. isl (table_info locked_env ''items'' j)"
    by (simp add: locked_env_def sample_env_def)
  from get_schema_bounded_retry
         [of flaky_env "''items''" "[(''id'', ''INTEGER'')]" "''items''" Map.empty initial_state flaky_env]
       flaky
  have one: "get_schema flaky_env ''items'' 0 =
        (Inr (Some [(''id'', ''INTEGER'')]),
         map (\<lambda>j. LogRetry (j + 1) MAX_RETRIES ''items'' (projl (table_info flaky_env ''items'' j))) [0..<2])"
    by blast
  from get_schema_bounded_retry
         [of locked_env "''items''" "[]" "''items''" Map.empty initial_state locked_env]
       locked
  have two: "get_schema locked_env ''items'' 0 =
        (Inl (projl (table_info locked_env ''items'' (MAX_RETRIES - 1))),
         map (\<lambda>j. LogRetry (j + 1) MAX_RETRIES ''items'' (projl (table_info locked_env ''items'' j)))
           [0..<MAX_RETRIES])"
    and three: "load_table locked_env ''items'' ''items'' Map.empty initial_state =
           Some (Inl (projl (table_info locked_env ''items'' (MAX_RETRIES - 1))),
                 say (map (\<lambda>j. LogRetry (j + 1) MAX_RETRIES ''items''
                                  (projl (table_info locked_env ''items'' j)))
                        [0..<MAX_RETRIES]) initial_state)"
    by blast+
  show ?thesis
    unfolding one two three
    by (simp add: upt MAX_RETRIES_def flaky_env_def locked_env_def sample_env_def say_def
        initial_state_def)
qed

subsection \<open>Sending statements and printing lines\<close>

lemma console_say [simp]: "console (say ls s) = console s @ ls"
  by (simp add: say_def)

lemma pg_sent_say [simp]: "pg_sent (say ls s) = pg_sent s"
  by (simp add: say_def)

lemma processedRows_say [simp]: "processedRows (say ls s) = processedRows s"
  by (simp add: say_def)

lemma failedRows_say [simp]: "failedRows (say ls s) = failedRows s"
  by (simp add: say_def)

lemma pg_exec_fields [simp]:
  "pg_sent (snd (pg_exec e q s)) = pg_sent s @ [q]"
  "console (snd (pg_exec e q s)) = console s"
  "processedRows (snd (pg_exec e q s)) = processedRows s"
  "failedRows (snd (pg_exec e q s)) = failedRows s"
  "fst (pg_exec e q s) = pg_query e (pg_sent s) q"
  by (simp_all add: pg_exec_def)

lemma pg_exec_eq:
  "pg_exec e q s = (r, s') \<longleftrightarrow> r = pg_query e (pg_sent s) q \<and> s' = s\<lparr>pg_sent := pg_sent s @ [q]\<rparr>"
  by (auto simp: pg_exec_def)

subsection \<open>The rows of a page\<close>

lemma process_row_sent:
  "pg_sent (process_row e t st m r s) = pg_sent s @ [insert_of e st m r]"
  by (simp add: process_row_def pg_exec_def split: sum.splits)

lemma process_row_processedRows:
  "processedRows (process_row e t st m r s) = processedRows s"
  by (simp add: process_row_def pg_exec_def split: sum.splits)

lemma process_row_console:
  "console (process_row e t st m r s) =
     console s @ (case pg_query e (pg_sent s) (insert_of e st m r) of
                    Inl err \<Rightarrow> [LogRowError t err] | Inr _ \<Rightarrow> [])"
  by (simp add: process_row_def pg_exec_def split: sum.splits)

lemma process_row_failedRows:
  "failedRows (process_row e t st m r s) =
     failedRows s @ (case pg_query e (pg_sent s) (insert_of e st m r) of
                       Inl err \<Rightarrow> [(t, processedRows s + length (failedRows s), err)]
                     | Inr _ \<Rightarrow> [])"
  by (simp add: process_row_def pg_exec_def split: sum.splits)

text \<open>
  Every row of a page is attempted, in order, whatever happens to the rows before it.
\<close>

lemma process_rows_sent:
  "pg_sent (process_rows e t st m rows s) = pg_sent s @ map (insert_of e st m) rows"
  by (induction rows arbitrary: s) (simp_all add: process_row_sent)

lemma process_rows_processedRows:
  "processedRows (process_rows e t st m rows s) = processedRows s"
  by (induction rows arbitrary: s) (simp_all add: process_row_processedRows)

lemma process_rows_console:
  "\<exists>ls. console (process_rows e t st m rows s) = console s @ ls
        \<and> (\<forall>l \<in> set ls. \<exists>err. l = LogRowError t err)"
proof (induction rows arbitrary: s)
  case Nil
  then show ?case by simp
next
  case (Cons r rows)
  obtain ls where ls: "console (process_rows e t st m rows (process_row e t st m r s)) =
      console (process_row e t st m r s) @ ls" "\<forall>l \<in> set ls. \<exists>err. l = LogRowError t err"
    using Cons.IH by blast
  show ?case
    by (rule exI [of _ "(case pg_query e (pg_sent s) (insert_of e st m r) of
                    Inl err \<Rightarrow> [LogRowError t err] | Inr _ \<Rightarrow> []) @ ls"])
       (auto simp: ls process_row_console split: sum.splits)
qed

lemma build_column_types_single:
  "build_column_types [(''id'', d)] = [''id'' \<mapsto> d]" "build_column_types [] = Map.empty"
  by (simp_all add: build_column_types_def)

text \<open>
  The object has a property for every column name of the answer but \<^verbatim>\<open>__proto__\<close>; an answer
  that names no other column leaves it without a key, as an empty answer does.
\<close>

lemma dom_build_column_types:
  "dom (build_column_types rows) = fst ` set rows - {''__proto__''}"
proof -
  have "dom (foldl (\<lambda>m (column_name, data_type).
                      if column_name = ''__proto__'' then m else m(column_name \<mapsto> data_type))
               m0 rows)
          = dom m0 \<union> (fst ` set rows - {''__proto__''})" for m0 :: "string \<rightharpoonup> string"
    by (induction rows arbitrary: m0) (auto split: prod.splits)
  then show ?thesis by (simp add: build_column_types_def)
qed

lemma build_column_types_proto_only:
  "dom (build_column_types [(''__proto__'', d)]) = {}"
  by (simp add: build_column_types_def)

lemma sample_rows_processed:
  "process_rows sample_env ''items'' ''items'' [''id'' \<mapsto> ''integer''] sample_rows
     \<lparr>pg_sent = ps, console = cs, processedRows = 0, failedRows = []\<rparr>
   = \<lparr>pg_sent = ps @ [InsertRow ''items'' [''id''] [SqlRaw (JNumber 1)],
                    InsertRow ''items'' [''id''] [SqlRaw (JNumber 2)],
                    InsertRow ''items'' [''id''] [SqlRaw (JNumber 3)]],
       console = cs @ [LogRowError ''items'' ''duplicate key''],
       processedRows = 0,
       failedRows = [(''items'', 0, ''duplicate key'')]\<rparr>"
  by (simp add: sample_rows_def sample_env_def process_row_def pg_exec_def insert_of_def
      encode_value_def say_def safe_items)

text \<open>
  Claim C1.  A rejected insert is recorded with the table name, an index and the message,
  and the rows after it are still attempted (see \<open>process_rows_sent\<close>); but the index is
  \<^verbatim>\<open>processedRows + failedRows.length\<close>, the offset of the page plus the number of failures
  recorded so far, not the position of the row.  In the example the first page holds three
  rows, the inserts of the first two are accepted and the insert of the third, the row at
  position 2 of the table, is rejected: the index recorded is 0.
\<close>

theorem third_row_recorded_at_index_0:
  "failedRows (process_rows sample_env ''items'' ''items'' [''id'' \<mapsto> ''integer''] sample_rows
     \<lparr>pg_sent = [], console = [], processedRows = 0, failedRows = []\<rparr>)
   = [(''items'', 0, ''duplicate key'')]
   \<and> sample_rows ! 2 = [(''id'', JNumber 3)]
   \<and> pg_query sample_env
        [InsertRow ''items'' [''id''] [SqlRaw (JNumber 1)],
         InsertRow ''items'' [''id''] [SqlRaw (JNumber 2)]]
        (insert_of sample_env ''items'' [''id'' \<mapsto> ''integer''] (sample_rows ! 2))
      = Inl ''duplicate key''"
  by (simp add: sample_rows_processed)
     (simp add: sample_rows_def sample_env_def insert_of_def encode_value_def safe_items)

subsection \<open>The paging loop\<close>

lemma page_loop_rule:
  assumes "page_loop e t st m n s = Some s'"
    and "P s"
    and "\<And>a b. P a \<Longrightarrow> page_turn e t st m n a = Continue b \<Longrightarrow> P b"
    and "\<And>a b. P a \<Longrightarrow> page_turn e t st m n a = Break b \<Longrightarrow> Q b"
  shows "Q s'"
proof -
  have "e = e \<and> t = t \<and> st = st \<and> m = m \<and> n = n \<and> P s \<longrightarrow> Q s'"
  proof (rule page_loop.raw_induct
      [where P = "\<lambda>e' t' st' m' n' a y. e' = e \<and> t' = t \<and> st' = st \<and> m' = m \<and> n' = n \<and> P a \<longrightarrow> Q y",
        OF _ assms(1)])
    fix f e' t' st' m' n' a y
    assume IH: "\<And>e' t' st' m' n' a y. f e' t' st' m' n' a = Some y \<Longrightarrow>
                 e' = e \<and> t' = t \<and> st' = st \<and> m' = m \<and> n' = n \<and> P a \<longrightarrow> Q y"
      and step: "(case page_turn e' t' st' m' n' a of
                    Break s' \<Rightarrow> Some s'
                  | Continue s' \<Rightarrow> f e' t' st' m' n' s') = Some y"
    show "e' = e \<and> t' = t \<and> st' = st \<and> m' = m \<and> n' = n \<and> P a \<longrightarrow> Q y"
    proof (intro impI, elim conjE)
      assume eqs: "e' = e" "t' = t" "st' = st" "m' = m" "n' = n" and Pa: "P a"
      show "Q y"
      proof (cases "page_turn e t st m n a")
        case (Break b)
        with step eqs have "b = y" by simp
        with Break Pa assms(4) show ?thesis by blast
      next
        case (Continue b)
        with step eqs have "f e t st m n b = Some y" by simp
        moreover have "P b" using assms(3) Pa Continue by blast
        ultimately show ?thesis using IH by blast
      qed
    qed
  qed
  with assms(2) show ?thesis by simp
qed

lemma page_turn_cases:
  "page_turn e t st m n s = Break b \<Longrightarrow> b = s \<and> select_page e t (processedRows s) = Inr []"
  by (auto simp: page_turn_def Let_def split: sum.splits if_splits prod.splits)

lemma batch_error_fields [simp]:
  "pg_sent (batch_error err s) = pg_sent s"
  "console (batch_error err s) = console s @ [LogBatchError err, LogContinueNextBatch]"
  "processedRows (batch_error err s) = processedRows s + BATCH_SIZE"
  "failedRows (batch_error err s) = failedRows s"
  by (simp_all add: batch_error_def)

lemma page_turn_sent:
  assumes "page_turn e t st m n s = Continue b"
  shows "\<exists>ext. pg_sent b = pg_sent s @ ext
           \<and> (\<forall>q \<in> set ext. q = Commit \<or> (\<exists>r. q = insert_of e st m r))"
  using assms
  by (auto simp: page_turn_def Let_def pg_exec_eq process_rows_sent
      split: sum.splits if_splits prod.splits)

lemma page_turn_console:
  assumes "page_turn e t st m n s = Continue b"
  shows "\<exists>ls. console b = console s @ ls \<and> (\<forall>k. LogTotalFailedRows k \<notin> set ls)"
proof -
  obtain ls where ls: "\<And>rows. console (process_rows e t st m rows s) = console s @ ls rows"
    "\<And>rows. \<forall>l \<in> set (ls rows). \<exists>err. l = LogRowError t err"
    using process_rows_console [of e t st m _ s] by metis
  have "\<And>rows k. LogTotalFailedRows k \<notin> set (ls rows)"
    using ls(2) by fastforce
  with assms show ?thesis
    by (auto simp: page_turn_def Let_def pg_exec_eq ls(1)
        split: sum.splits if_splits prod.splits)
qed

lemma page_loop_sent:
  assumes "page_loop e t st m n s = Some s'"
  shows "\<exists>ext. pg_sent s' = pg_sent s @ ext
           \<and> (\<forall>q \<in> set ext. q = Commit \<or> (\<exists>r. q = insert_of e st m r))"
proof (rule page_loop_rule [OF assms, where P = "\<lambda>a. \<exists>ext. pg_sent a = pg_sent s @ ext
           \<and> (\<forall>q \<in> set ext. q = Commit \<or> (\<exists>r. q = insert_of e st m r))"])
  show "\<exists>ext. pg_sent s = pg_sent s @ ext \<and> (\<forall>q\<in>set ext. q = Commit \<or> (\<exists>r. q = insert_of e st m r))"
    by simp
next
  fix a b :: state
  assume a: "\<exists>ext. pg_sent a = pg_sent s @ ext
           \<and> (\<forall>q \<in> set ext. q = Commit \<or> (\<exists>r. q = insert_of e st m r))"
  {
    assume "page_turn e t st m n a = Continue b"
    from page_turn_sent [OF this] a
    show "\<exists>ext. pg_sent b = pg_sent s @ ext
           \<and> (\<forall>q \<in> set ext. q = Commit \<or> (\<exists>r. q = insert_of e st m r))"
      by (metis UnE append.assoc set_append)
  }
  {
    assume "page_turn e t st m n a = Break b"
    with a show "\<exists>ext. pg_sent b = pg_sent s @ ext
           \<and> (\<forall>q \<in> set ext. q = Commit \<or> (\<exists>r. q = insert_of e st m r))"
      by (auto dest: page_turn_cases)
  }
qed

lemma page_loop_console:
  assumes "page_loop e t st m n s = Some s'"
  shows "\<exists>ls. console s' = console s @ ls \<and> (\<forall>k. LogTotalFailedRows k \<notin> set ls)"
proof (rule page_loop_rule [OF assms, where P = "\<lambda>a. \<exists>ls. console a = console s @ ls
           \<and> (\<forall>k. LogTotalFailedRows k \<notin> set ls)"])
  show "\<exists>ls. console s = console s @ ls \<and> (\<forall>k. LogTotalFailedRows k \<notin> set ls)"
    by simp
next
  fix a b :: state
  assume a: "\<exists>ls. console a = console s @ ls \<and> (\<forall>k. LogTotalFailedRows k \<notin> set ls)"
  {
    assume "page_turn e t st m n a = Continue b"
    from page_turn_console [OF this] a
    show "\<exists>ls. console b = console s @ ls \<and> (\<forall>k. LogTotalFailedRows k \<notin> set ls)"
      by (metis UnE append.assoc set_append)
  }
  {
    assume "page_turn e t st m n a = Break b"
    with a show "\<exists>ls. console b = console s @ ls \<and> (\<forall>k. LogTotalFailedRows k \<notin> set ls)"
      by (auto dest: page_turn_cases)
  }
qed

text \<open>
  An empty page ends the loop; a rejected fetch prints two lines and moves the offset by
  \<^verbatim>\<open>BATCH_SIZE\<close>; a page whose commit is accepted moves the offset by its number of rows.
\<close>

lemma page_loop_stops_on_empty_page:
  "select_page e t (processedRows s) = Inr [] \<Longrightarrow> page_loop e t st m n s = Some s"
  by (subst page_loop.simps) (simp add: page_turn_def)

lemma page_turn_fetch_error:
  "select_page e t (processedRows s) = Inl err \<Longrightarrow>
     page_turn e t st m n s =
       Continue (s\<lparr>console := console s @ [LogBatchError err, LogContinueNextBatch],
                   processedRows := processedRows s + BATCH_SIZE\<rparr>)"
  by (simp add: page_turn_def batch_error_def say_def)

lemma page_turn_committed_page:
  assumes "select_page e t (processedRows s) = Inr rows" "rows \<noteq> []"
    and "page_turn e t st m n s = Continue s'"
    and "pg_query e (pg_sent s @ map (insert_of e st m) rows) Commit = Inr u"
  shows "processedRows s' = processedRows s + length rows"
  using assms
  by (auto simp: page_turn_def Let_def pg_exec_def say_def process_rows_sent
      process_rows_processedRows split: sum.splits)

text \<open>
  Claim C8.  The handler of the loop also serves a rejected commit, after the offset has
  been moved by the number of rows of the page.  In the example the fetch at offset 0
  succeeds with three rows, all three inserts are accepted and the commit is rejected: the
  next fetch is at offset 503, not at offset 3, so the rows 3 to 502 are never read.
\<close>

theorem commit_failure_skips_a_page:
  "page_turn lost_connection_env ''items'' ''items'' [''id'' \<mapsto> ''integer''] 3
     \<lparr>pg_sent = [], console = [], processedRows = 0, failedRows = []\<rparr>
   = Continue
       \<lparr>pg_sent = [InsertRow ''items'' [''id''] [SqlRaw (JNumber 1)],
                   InsertRow ''items'' [''id''] [SqlRaw (JNumber 2)],
                   InsertRow ''items'' [''id''] [SqlRaw (JNumber 3)], Commit],
        console = [LogProcessed 3 3 ''items'',
                   LogBatchError ''Connection terminated unexpectedly'', LogContinueNextBatch],
        processedRows = 503, failedRows = []\<rparr>
   \<and> select_page lost_connection_env ''items'' 0 = Inr sample_rows
   \<and> length sample_rows = 3"
proof -
  have sel: "select_page lost_connection_env ''items'' 0 = Inr sample_rows"
    "\<And>sent. pg_query lost_connection_env sent Commit = Inl ''Connection terminated unexpectedly''"
    by (simp_all add: lost_connection_env_def sample_env_def)
  have len: "length sample_rows = 3" by (simp add: sample_rows_def)
  have rows: "process_rows lost_connection_env ''items'' ''items'' [''id'' \<mapsto> ''integer''] sample_rows
     \<lparr>pg_sent = [], console = [], processedRows = 0, failedRows = []\<rparr>
   = \<lparr>pg_sent = [InsertRow ''items'' [''id''] [SqlRaw (JNumber 1)],
                    InsertRow ''items'' [''id''] [SqlRaw (JNumber 2)],
                    InsertRow ''items'' [''id''] [SqlRaw (JNumber 3)]],
       console = [], processedRows = 0, failedRows = []\<rparr>"
    by (simp add: sample_rows_def lost_connection_env_def sample_env_def process_row_def
        pg_exec_def insert_of_def encode_value_def say_def safe_items)
  show ?thesis
    by (simp add: page_turn_def sel len rows Let_def say_def pg_exec_def batch_error_def
        BATCH_SIZE_def)
qed

subsection \<open>One table\<close>

lemma get_schema_lines:
  "\<forall>l \<in> set (snd (get_schema e t r)). \<exists>a b c d. l = LogRetry a b c d"
proof (induction e t r rule: get_schema.induct)
  case (1 e tableName retryCount)
  show ?case
    using 1 by (subst get_schema.simps) (auto simp: Let_def split: sum.splits prod.splits)
qed

lemma get_schema_no_total:
  "get_schema e t r = (x, ls) \<Longrightarrow> LogTotalFailedRows k \<notin> set ls"
  using get_schema_lines [of e t r] by auto

lemma create_if_missing_console:
  "create_if_missing e st m sch s = (x, s') \<Longrightarrow> console s' = console s"
  by (auto simp: create_if_missing_def pg_exec_eq split: if_splits option.splits sum.splits prod.splits)

lemma create_if_missing_sent:
  "create_if_missing e st m sch s = (Inr u, s') \<Longrightarrow>
     (dom m \<noteq> {} \<and> pg_sent s' = pg_sent s)
     \<or> (dom m = {} \<and> (\<exists>cols. pg_sent s' = pg_sent s @ [CreateTable st cols]))"
  by (auto simp: create_if_missing_def pg_exec_eq split: if_splits option.splits sum.splits prod.splits)

lemma create_if_missing_sent_error:
  "create_if_missing e st m sch s = (Inl err, s') \<Longrightarrow>
     pg_sent s' = pg_sent s \<or> (\<exists>cols. pg_sent s' = pg_sent s @ [CreateTable st cols])"
  by (auto simp: create_if_missing_def pg_exec_eq split: if_splits option.splits sum.splits prod.splits)

lemma report_table_sent [simp]: "pg_sent (report_table t s) = pg_sent s"
  by (simp add: report_table_def)

lemma report_table_console:
  "\<exists>ls. console (report_table t s) = console s @ ls \<and> (\<forall>k. LogTotalFailedRows k \<notin> set ls)"
  by (auto simp: report_table_def)

lemma truncate_table_sent [simp]:
  "pg_sent (truncate_table e t st s) = pg_sent s @ [Truncate st]"
  by (simp add: truncate_table_def pg_exec_def split: sum.splits)

lemma truncate_table_console:
  "\<exists>ls. console (truncate_table e t st s) = console s @ ls \<and> (\<forall>k. LogTotalFailedRows k \<notin> set ls)"
  by (auto simp: truncate_table_def pg_exec_def split: sum.splits)

lemma copy_rows_console:
  assumes "copy_rows e t st m s = Some (x, s')"
  shows "\<exists>ls. console s' = console s @ ls \<and> (\<forall>k. LogTotalFailedRows k \<notin> set ls)"
proof (cases "count_rows e t")
  case (Inl err)
  with assms show ?thesis by (simp add: copy_rows_def)
next
  case (Inr totalRows)
  with assms obtain s6 where
    loop: "page_loop e t st m totalRows (s\<lparr>processedRows := 0, failedRows := []\<rparr>) = Some s6"
    and s': "s' = report_table t s6"
    by (auto simp: copy_rows_def split: option.splits)
  from page_loop_console [OF loop] obtain ls1 where
    "console s6 = console s @ ls1" "\<forall>k. LogTotalFailedRows k \<notin> set ls1"
    by auto
  moreover from report_table_console [of t s6] obtain ls2 where
    "console s' = console s6 @ ls2" "\<forall>k. LogTotalFailedRows k \<notin> set ls2"
    unfolding s' by auto
  ultimately show ?thesis
    by (intro exI [of _ "ls1 @ ls2"]) simp
qed

lemma load_table_console:
  assumes "load_table e t st m s = Some (x, s')"
  shows "\<exists>ls. console s' = console s @ ls \<and> (\<forall>k. LogTotalFailedRows k \<notin> set ls)"
proof -
  obtain sch ls0 where gs: "get_schema e t 0 = (sch, ls0)"
    by (cases "get_schema e t 0")
  have nt: "\<forall>k. LogTotalFailedRows k \<notin> set ls0"
    using get_schema_no_total [OF gs] by blast
  show ?thesis
  proof (cases sch)
    case (Inl err)
    with assms gs nt show ?thesis by (auto simp: load_table_def)
  next
    case (Inr schema)
    obtain y s5 where cr: "create_if_missing e st m schema (say ls0 s) = (y, s5)"
      by (cases "create_if_missing e st m schema (say ls0 s)")
    have c5: "console s5 = console s @ ls0"
      using create_if_missing_console [OF cr] by simp
    show ?thesis
    proof (cases y)
      case (Inl err)
      with assms gs Inr cr c5 nt show ?thesis by (auto simp: load_table_def)
    next
      case y: (Inr u)
      with assms gs Inr cr have "copy_rows e t st m s5 = Some (x, s')"
        by (simp add: load_table_def)
      from copy_rows_console [OF this] obtain ls1 where
        "console s' = console s5 @ ls1" "\<forall>k. LogTotalFailedRows k \<notin> set ls1"
        by auto
      with c5 nt show ?thesis
        by (intro exI [of _ "ls0 @ ls1"]) simp
    qed
  qed
qed

lemma migrate_table_unfold:
  assumes "name table \<noteq> ''migratehistory''" "name table \<noteq> ''alembic_version''"
  shows "migrate_table e table s =
     (let st = getSafeIdentifier (name table);
          s1 = truncate_table e (name table) st (say [LogProcessingTable (name table)] s);
          s2 = s1\<lparr>pg_sent := pg_sent s @ [Truncate st, SelectColumns st]\<rparr>
      in case pg_query e (pg_sent s @ [Truncate st]) (SelectColumns st) of
           Inl err \<Rightarrow> Some (Inl err, s2)
         | Inr pgSchema \<Rightarrow> load_table e (name table) st (build_column_types pgSchema) s2)"
  using assms by (simp add: migrate_table_def Let_def pg_exec_def split: sum.splits)

lemma migrate_table_console:
  assumes "migrate_table e table s = Some (x, s')"
  shows "\<exists>ls. console s' = console s @ ls \<and> (\<forall>k. LogTotalFailedRows k \<notin> set ls)"
proof (cases "name table = ''migratehistory'' \<or> name table = ''alembic_version''")
  case True
  with assms show ?thesis
    by (auto simp: migrate_table_def)
next
  case False
  define st where "st = getSafeIdentifier (name table)"
  define s1 where "s1 = truncate_table e (name table) st (say [LogProcessingTable (name table)] s)"
  define s2 where "s2 = s1\<lparr>pg_sent := pg_sent s @ [Truncate st, SelectColumns st]\<rparr>"
  obtain ls1 where c1: "console s2 = console s @ ls1" "\<forall>k. LogTotalFailedRows k \<notin> set ls1"
    using truncate_table_console [of e "name table" st "say [LogProcessingTable (name table)] s"]
    unfolding s1_def s2_def by auto
  from False have unfold: "migrate_table e table s =
      (case pg_query e (pg_sent s @ [Truncate st]) (SelectColumns st) of
           Inl err \<Rightarrow> Some (Inl err, s2)
         | Inr pgSchema \<Rightarrow> load_table e (name table) st (build_column_types pgSchema) s2)"
    unfolding st_def s1_def s2_def by (simp add: migrate_table_unfold Let_def)
  show ?thesis
  proof (cases "pg_query e (pg_sent s @ [Truncate st]) (SelectColumns st)")
    case (Inl err)
    with assms unfold c1 show ?thesis by auto
  next
    case (Inr pgSchema)
    with assms unfold have "load_table e (name table) st (build_column_types pgSchema) s2 = Some (x, s')"
      by simp
    from load_table_console [OF this] obtain ls2 where
      "console s' = console s2 @ ls2" "\<forall>k. LogTotalFailedRows k \<notin> set ls2"
      by auto
    with c1 show ?thesis
      by (intro exI [of _ "ls1 @ ls2"]) simp
  qed
qed

lemma copy_rows_sent:
  assumes "copy_rows e t st m s = Some (x, s')"
  shows "\<exists>ext. pg_sent s' = pg_sent s @ ext
           \<and> (\<forall>q \<in> set ext. q = Commit \<or> (\<exists>r. q = insert_of e st m r))"
proof (cases "count_rows e t")
  case (Inl err)
  with assms show ?thesis by (simp add: copy_rows_def)
next
  case (Inr totalRows)
  with assms obtain s6 where
    loop: "page_loop e t st m totalRows (s\<lparr>processedRows := 0, failedRows := []\<rparr>) = Some s6"
    and s': "s' = report_table t s6"
    by (auto simp: copy_rows_def split: option.splits)
  from page_loop_sent [OF loop] show ?thesis
    unfolding s' by simp
qed

lemma load_table_sent:
  assumes "load_table e t st m s = Some (x, s')"
  shows "\<exists>created ext. pg_sent s' = pg_sent s @ created @ ext
           \<and> (created = [] \<or> (dom m = {} \<and> (\<exists>cols. created = [CreateTable st cols])))
           \<and> (\<forall>q \<in> set ext. q = Commit \<or> (\<exists>r. q = insert_of e st m r))"
proof -
  obtain sch ls0 where gs: "get_schema e t 0 = (sch, ls0)"
    by (cases "get_schema e t 0")
  show ?thesis
  proof (cases sch)
    case (Inl err)
    with assms gs have "pg_sent s' = pg_sent s" by (auto simp: load_table_def)
    then show ?thesis by simp
  next
    case (Inr schema)
    obtain y s5 where cr: "create_if_missing e st m schema (say ls0 s) = (y, s5)"
      by (cases "create_if_missing e st m schema (say ls0 s)")
    show ?thesis
    proof (cases y)
      case (Inl err)
      with assms gs Inr cr have s': "s' = s5" by (simp add: load_table_def)
      from cr Inl have "pg_sent s5 = pg_sent s
          \<or> (dom m = {} \<and> (\<exists>cols. pg_sent s5 = pg_sent s @ [CreateTable st cols]))"
        by (auto simp: create_if_missing_def pg_exec_eq
            split: if_splits option.splits sum.splits prod.splits)
      then show ?thesis
        unfolding s' by (elim disjE conjE exE) (rule exI [of _ "[]"], simp, 
          rule exI, rule exI [of _ "[]"], auto)
    next
      case y: (Inr u)
      with assms gs Inr cr have "copy_rows e t st m s5 = Some (x, s')"
        by (simp add: load_table_def)
      from copy_rows_sent [OF this] obtain ext where
        ext: "pg_sent s' = pg_sent s5 @ ext"
          "\<forall>q \<in> set ext. q = Commit \<or> (\<exists>r. q = insert_of e st m r)"
        by auto
      from create_if_missing_sent [OF cr [unfolded y]]
      have "\<exists>created. pg_sent s5 = pg_sent s @ created
              \<and> (created = [] \<or> (dom m = {} \<and> (\<exists>cols. created = [CreateTable st cols])))"
        by auto
      then obtain created where "pg_sent s5 = pg_sent s @ created"
        "created = [] \<or> (dom m = {} \<and> (\<exists>cols. created = [CreateTable st cols]))"
        by blast
      with ext show ?thesis
        by (intro exI [of _ created] exI [of _ ext]) simp
    qed
  qed
qed

text \<open>
  The run on a destination without the table.
\<close>

lemma fresh_rows_processed:
  "process_rows fresh_env ''items'' ''items'' Map.empty sample_rows
     \<lparr>pg_sent = ps, console = cs, processedRows = 0, failedRows = []\<rparr>
   = \<lparr>pg_sent = ps @ [InsertRow ''items'' [''id''] [SqlRaw (JNumber 1)],
                    InsertRow ''items'' [''id''] [SqlRaw (JNumber 2)],
                    InsertRow ''items'' [''id''] [SqlRaw (JNumber 3)]],
       console = cs, processedRows = 0, failedRows = []\<rparr>"
  by (simp add: sample_rows_def fresh_env_def sample_env_def process_row_def pg_exec_def
      insert_of_def encode_value_def say_def safe_items)

lemma fresh_page_loop:
  "page_loop fresh_env ''items'' ''items'' Map.empty 3
     \<lparr>pg_sent = ps, console = cs, processedRows = 0, failedRows = []\<rparr>
   = Some \<lparr>pg_sent = ps @ [InsertRow ''items'' [''id''] [SqlRaw (JNumber 1)],
                    InsertRow ''items'' [''id''] [SqlRaw (JNumber 2)],
                    InsertRow ''items'' [''id''] [SqlRaw (JNumber 3)], Commit],
       console = cs @ [LogProcessed 3 3 ''items''],
       processedRows = 3, failedRows = []\<rparr>"
proof -
  have sel: "select_page fresh_env ''items'' 0 = Inr sample_rows"
    "select_page fresh_env ''items'' 3 = Inr []"
    "\<And>sent. pg_query fresh_env sent Commit = Inr []"
    by (simp_all add: fresh_env_def sample_env_def)
  have len: "length sample_rows = 3" by (simp add: sample_rows_def)
  have first: "page_turn fresh_env ''items'' ''items'' Map.empty 3
     \<lparr>pg_sent = ps, console = cs, processedRows = 0, failedRows = []\<rparr>
     = Continue \<lparr>pg_sent = ps @ [InsertRow ''items'' [''id''] [SqlRaw (JNumber 1)],
                    InsertRow ''items'' [''id''] [SqlRaw (JNumber 2)],
                    InsertRow ''items'' [''id''] [SqlRaw (JNumber 3)], Commit],
       console = cs @ [LogProcessed 3 3 ''items''],
       processedRows = 3, failedRows = []\<rparr>"
    by (simp add: page_turn_def sel len fresh_rows_processed Let_def say_def pg_exec_def)
  have brk: "page_turn fresh_env ''items'' ''items'' Map.empty 3
     \<lparr>pg_sent = ps', console = cs', processedRows = 3, failedRows = fs\<rparr>
     = Break \<lparr>pg_sent = ps', console = cs', processedRows = 3, failedRows = fs\<rparr>" for ps' cs' fs
    by (simp add: page_turn_def sel)
  show ?thesis
    by (subst page_loop.simps, simp only: first turn.case,
        subst page_loop.simps, simp only: brk turn.case)
qed

lemma column_defs_id: "column_defs [(''id'', ''INTEGER'')] = [''id INTEGER'']"
  by (simp add: column_defs_def safe_items sqliteToPgType_def case_defs)

lemma fresh_migrate_table:
  "migrate_table fresh_env \<lparr>name = ''items'', table_failedRows = None\<rparr>
      \<lparr>pg_sent = [], console = cs, processedRows = 0, failedRows = []\<rparr>
    = Some (Inr (), \<lparr>pg_sent = [Truncate ''items'', SelectColumns ''items'',
                    CreateTable ''items'' [''id INTEGER''],
                    InsertRow ''items'' [''id''] [SqlRaw (JNumber 1)],
                    InsertRow ''items'' [''id''] [SqlRaw (JNumber 2)],
                    InsertRow ''items'' [''id''] [SqlRaw (JNumber 3)], Commit],
       console = cs @ [LogProcessingTable ''items'', LogTruncating ''items'',
                  LogProcessed 3 3 ''items'',
                  LogCompleted 3 ''items'', LogFailedCount 0 ''items''],
       processedRows = 3, failedRows = []\<rparr>)"
proof -
  have env: "count_rows fresh_env ''items'' = Inr 3"
    "\<And>sent. pg_query fresh_env sent (Truncate ''items'') = Inr []"
    "pg_query fresh_env [Truncate ''items''] (SelectColumns ''items'') = Inr []"
    "\<And>sent cols. pg_query fresh_env sent (CreateTable ''items'' cols) = Inr []"
    by (simp_all add: fresh_env_def sample_env_def creates_def)
  have gs: "get_schema fresh_env ''items'' 0 = (Inr (Some [(''id'', ''INTEGER'')]), [])"
    by (subst get_schema.simps) (simp add: fresh_env_def sample_env_def MAX_RETRIES_def)
  show ?thesis
    by (simp add: migrate_table_def Let_def safe_items truncate_table_def pg_exec_def env say_def
        build_column_types_single load_table_def gs create_if_missing_def column_defs_id
        copy_rows_def fresh_page_loop report_table_def)
qed

lemma fresh_migrate:
  "migrate fresh_env = Some
     \<lparr>exit_code = 0,
      final = \<lparr>pg_sent = [Truncate ''items'', SelectColumns ''items'',
                    CreateTable ''items'' [''id INTEGER''],
                    InsertRow ''items'' [''id''] [SqlRaw (JNumber 1)],
                    InsertRow ''items'' [''id''] [SqlRaw (JNumber 2)],
                    InsertRow ''items'' [''id''] [SqlRaw (JNumber 3)], Commit],
       console = [LogRunningIntegrityCheck, LogIntegrityPassed, LogProcessingTable ''items'',
                  LogTruncating ''items'', LogProcessed 3 3 ''items'',
                  LogCompleted 3 ''items'', LogFailedCount 0 ''items'', LogMigrationCompleted],
       processedRows = 3, failedRows = []\<rparr>\<rparr>"
proof -
  have env: "pg_connect fresh_env = Inr ()" "list_tables fresh_env = Inr [''items'']"
    by (simp_all add: fresh_env_def sample_env_def)
  have chk: "checkSqliteIntegrity fresh_env = (True, [LogRunningIntegrityCheck, LogIntegrityPassed])"
    by (simp add: checkSqliteIntegrity_def fresh_env_def sample_env_def)
  show ?thesis
    by (simp add: migrate_def env chk entries_of_def say_def initial_state_def
        fresh_migrate_table summary_def totalFailedRows_def)
qed

text \<open>
  Claim C2, as stated, fails: in the run on a destination without the table the catalog
  query is sent before the create-table statement and never after it.  The catalog would
  report the new column after the creation, but the run has built its map from the empty
  answer it got before.
\<close>

theorem column_types_not_read_after_create:
  "map_option (\<lambda>r. pg_sent (final r)) (migrate fresh_env) =
     Some [Truncate ''items'', SelectColumns ''items'', CreateTable ''items'' [''id INTEGER''],
           InsertRow ''items'' [''id''] [SqlRaw (JNumber 1)],
           InsertRow ''items'' [''id''] [SqlRaw (JNumber 2)],
           InsertRow ''items'' [''id''] [SqlRaw (JNumber 3)], Commit]
   \<and> \<not> catalog_read_after_create
         [Truncate ''items'', SelectColumns ''items'', CreateTable ''items'' [''id INTEGER''],
          InsertRow ''items'' [''id''] [SqlRaw (JNumber 1)],
          InsertRow ''items'' [''id''] [SqlRaw (JNumber 2)],
          InsertRow ''items'' [''id''] [SqlRaw (JNumber 3)], Commit]
   \<and> pg_query fresh_env [Truncate ''items''] (SelectColumns ''items'') = Inr []
   \<and> pg_query fresh_env
        [Truncate ''items'', SelectColumns ''items'', CreateTable ''items'' [''id INTEGER'']]
        (SelectColumns ''items'') = Inr [(''id'', ''integer'')]"
  by (simp add: fresh_migrate) (simp add: fresh_env_def sample_env_def creates_def)

text \<open>
  Claim C2, amended.  For every table that is not skipped, the catalog query for the column
  types is sent once, right after the truncate and before any create-table statement,
  and no catalog query follows.  Hence for a table created during the run the map built
  from the answer is empty (the answer named no column, or none but \<^verbatim>\<open>__proto__\<close>), and
  none of the values inserted into it is one of the boolean keywords.
\<close>

theorem column_types_read_before_create:
  assumes "migrate_table e table s = Some (x, s')"
    and "name table \<noteq> ''migratehistory''" and "name table \<noteq> ''alembic_version''"
  shows "\<exists>rest. pg_sent s' =
             pg_sent s @ Truncate (getSafeIdentifier (name table))
               # SelectColumns (getSafeIdentifier (name table)) # rest
           \<and> (\<forall>t. SelectColumns t \<notin> set rest)
           \<and> ((\<exists>cols. CreateTable (getSafeIdentifier (name table)) cols \<in> set rest) \<longrightarrow>
                (\<exists>pgSchema.
                    pg_query e (pg_sent s @ [Truncate (getSafeIdentifier (name table))])
                      (SelectColumns (getSafeIdentifier (name table))) = Inr pgSchema
                    \<and> build_column_types pgSchema = Map.empty
                    \<and> fst ` set pgSchema \<subseteq> {''__proto__''})
                \<and> (\<forall>t cs vs. InsertRow t cs vs \<in> set rest \<longrightarrow>
                      SqlText ''true'' \<notin> set vs \<and> SqlText ''false'' \<notin> set vs))"
proof -
  define st where "st = getSafeIdentifier (name table)"
  define s1 where "s1 = truncate_table e (name table) st (say [LogProcessingTable (name table)] s)"
  define s2 where "s2 = s1\<lparr>pg_sent := pg_sent s @ [Truncate st, SelectColumns st]\<rparr>"
  have sent2: "pg_sent s2 = pg_sent s @ [Truncate st, SelectColumns st]"
    by (simp add: s2_def)
  from assms(2,3) have unfold: "migrate_table e table s =
      (case pg_query e (pg_sent s @ [Truncate st]) (SelectColumns st) of
           Inl err \<Rightarrow> Some (Inl err, s2)
         | Inr pgSchema \<Rightarrow> load_table e (name table) st (build_column_types pgSchema) s2)"
    unfolding st_def s1_def s2_def by (simp add: migrate_table_unfold Let_def)
  show ?thesis
    unfolding st_def [symmetric]
  proof (cases "pg_query e (pg_sent s @ [Truncate st]) (SelectColumns st)")
    case (Inl err)
    with assms(1) unfold have "s' = s2" by simp
    with sent2 show "\<exists>rest. pg_sent s' = pg_sent s @ Truncate st # SelectColumns st # rest
           \<and> (\<forall>t. SelectColumns t \<notin> set rest)
           \<and> ((\<exists>cols. CreateTable st cols \<in> set rest) \<longrightarrow>
                (\<exists>pgSchema.
                    pg_query e (pg_sent s @ [Truncate st]) (SelectColumns st) = Inr pgSchema
                    \<and> build_column_types pgSchema = Map.empty
                    \<and> fst ` set pgSchema \<subseteq> {''__proto__''})
                \<and> (\<forall>t cs vs. InsertRow t cs vs \<in> set rest \<longrightarrow>
                      SqlText ''true'' \<notin> set vs \<and> SqlText ''false'' \<notin> set vs))"
      by (intro exI [of _ "[]"]) simp
  next
    case (Inr pgSchema)
    define m where "m = build_column_types pgSchema"
    from Inr assms(1) unfold have "load_table e (name table) st m s2 = Some (x, s')"
      by (simp add: m_def)
    from load_table_sent [OF this] obtain created ext where
      sent: "pg_sent s' = pg_sent s2 @ created @ ext"
      and created: "created = [] \<or> (dom m = {} \<and> (\<exists>cols. created = [CreateTable st cols]))"
      and ext: "\<forall>q \<in> set ext. q = Commit \<or> (\<exists>r. q = insert_of e st m r)"
      by blast
    have no_select: "SelectColumns t \<notin> set (created @ ext)" for t
      using created ext by (auto simp: insert_of_def)
    have when_created: "(\<exists>pgSchema.
            pg_query e (pg_sent s @ [Truncate st]) (SelectColumns st) = Inr pgSchema
            \<and> build_column_types pgSchema = Map.empty
            \<and> fst ` set pgSchema \<subseteq> {''__proto__''})
        \<and> (\<forall>t cs vs. InsertRow t cs vs \<in> set (created @ ext) \<longrightarrow>
              SqlText ''true'' \<notin> set vs \<and> SqlText ''false'' \<notin> set vs)"
      if "CreateTable st cols \<in> set (created @ ext)" for cols
    proof -
      from that ext have "created \<noteq> []"
        by (auto simp: insert_of_def)
      with created have empty: "dom m = {}" and one: "\<exists>cols. created = [CreateTable st cols]"
        by auto
      from empty have "build_column_types pgSchema = Map.empty"
        "fst ` set pgSchema \<subseteq> {''__proto__''}"
        unfolding m_def by (simp, simp add: dom_build_column_types)
      moreover have "SqlText ''true'' \<notin> set vs \<and> SqlText ''false'' \<notin> set vs"
        if "InsertRow t cs vs \<in> set (created @ ext)" for t cs vs
      proof -
        from that one have "InsertRow t cs vs \<in> set ext"
          by auto
        with ext obtain r where "InsertRow t cs vs = insert_of e st m r"
          by blast
        then have "insert_of e st m r = InsertRow t cs vs" ..
        from insert_of_no_boolean [OF empty this] show ?thesis .
      qed
      ultimately show ?thesis
        using Inr by blast
    qed
    show "\<exists>rest. pg_sent s' = pg_sent s @ Truncate st # SelectColumns st # rest
           \<and> (\<forall>t. SelectColumns t \<notin> set rest)
           \<and> ((\<exists>cols. CreateTable st cols \<in> set rest) \<longrightarrow>
                (\<exists>pgSchema.
                    pg_query e (pg_sent s @ [Truncate st]) (SelectColumns st) = Inr pgSchema
                    \<and> build_column_types pgSchema = Map.empty
                    \<and> fst ` set pgSchema \<subseteq> {''__proto__''})
                \<and> (\<forall>t cs vs. InsertRow t cs vs \<in> set rest \<longrightarrow>
                      SqlText ''true'' \<notin> set vs \<and> SqlText ''false'' \<notin> set vs))"
    proof (intro exI [of _ "created @ ext"] conjI allI impI)
      show "pg_sent s' = pg_sent s @ Truncate st # SelectColumns st # created @ ext"
        by (simp add: sent sent2)
    qed (use no_select when_created in blast)+
  qed
qed

text \<open>
  The table of the example is created in the run, after the catalog query.
\<close>

theorem column_types_read_before_create_witness:
  "migrate_table fresh_env \<lparr>name = ''items'', table_failedRows = None\<rparr> initial_state
     = Some (Inr (), \<lparr>pg_sent = [Truncate ''items'', SelectColumns ''items'',
                    CreateTable ''items'' [''id INTEGER''],
                    InsertRow ''items'' [''id''] [SqlRaw (JNumber 1)],
                    InsertRow ''items'' [''id''] [SqlRaw (JNumber 2)],
                    InsertRow ''items'' [''id''] [SqlRaw (JNumber 3)], Commit],
       console = [LogProcessingTable ''items'', LogTruncating ''items'',
                  LogProcessed 3 3 ''items'',
                  LogCompleted 3 ''items'', LogFailedCount 0 ''items''],
       processedRows = 3, failedRows = []\<rparr>)
   \<and> pg_query fresh_env [Truncate ''items''] (SelectColumns ''items'') = Inr []"
proof -
  have run: "migrate_table fresh_env \<lparr>name = ''items'', table_failedRows = None\<rparr> initial_state
     = Some (Inr (), \<lparr>pg_sent = [Truncate ''items'', SelectColumns ''items'',
                    CreateTable ''items'' [''id INTEGER''],
                    InsertRow ''items'' [''id''] [SqlRaw (JNumber 1)],
                    InsertRow ''items'' [''id''] [SqlRaw (JNumber 2)],
                    InsertRow ''items'' [''id''] [SqlRaw (JNumber 3)], Commit],
       console = [LogProcessingTable ''items'', LogTruncating ''items'',
                  LogProcessed 3 3 ''items'',
                  LogCompleted 3 ''items'', LogFailedCount 0 ''items''],
       processedRows = 3, failedRows = []\<rparr>)"
    using fresh_migrate_table [of "[]"] by (simp add: initial_state_def)
  have names: "name \<lparr>name = ''items'', table_failedRows = None\<rparr> \<noteq> ''migratehistory''"
    "name \<lparr>name = ''items'', table_failedRows = None\<rparr> \<noteq> ''alembic_version''"
    by simp_all
  have answer: "pg_query fresh_env [Truncate ''items''] (SelectColumns ''items'') = Inr []"
    by (simp add: fresh_env_def sample_env_def creates_def)
  from column_types_read_before_create [OF run names]
  show ?thesis
    using run answer by simp
qed

subsection \<open>The whole run\<close>

lemma totalFailedRows_entries_of: "totalFailedRows (entries_of names) = 0"
proof -
  have "foldl (\<lambda>sum table. sum + (case table_failedRows table of
                                   None \<Rightarrow> 0 | Some rows \<Rightarrow> length rows)) acc
          (map (\<lambda>n. \<lparr>name = n, table_failedRows = None\<rparr>) names) = acc" for acc :: nat
    by (induction names arbitrary: acc) simp_all
  then show ?thesis
    by (simp add: totalFailedRows_def entries_of_def)
qed

lemma migrate_tables_console:
  assumes "migrate_tables e tables s = Some (x, s')"
  shows "\<exists>ls. console s' = console s @ ls \<and> (\<forall>k. LogTotalFailedRows k \<notin> set ls)"
  using assms
proof (induction tables arbitrary: s)
  case Nil
  then show ?case by simp
next
  case (Cons table tables)
  from Cons.prems obtain y s1 where mt: "migrate_table e table s = Some (y, s1)"
    by (auto split: option.splits)
  from migrate_table_console [OF mt] obtain ls1 where
    c1: "console s1 = console s @ ls1" "\<forall>k. LogTotalFailedRows k \<notin> set ls1"
    by auto
  show ?case
  proof (cases y)
    case (Inl err)
    with Cons.prems mt c1 show ?thesis by auto
  next
    case (Inr u)
    with Cons.prems mt have "migrate_tables e tables s1 = Some (x, s')" by simp
    from Cons.IH [OF this] obtain ls2 where
      "console s' = console s1 @ ls2" "\<forall>k. LogTotalFailedRows k \<notin> set ls2"
      by auto
    with c1 show ?thesis
      by (intro exI [of _ "ls1 @ ls2"]) simp
  qed
qed

lemma critical_console:
  "\<exists>ls. console (critical e err s) = console s @ ls \<and> (\<forall>k. LogTotalFailedRows k \<notin> set ls)"
  by (auto simp: critical_def pg_exec_def split: sum.splits)

lemma checkSqliteIntegrity_lines:
  "checkSqliteIntegrity e = (ok, ls) \<Longrightarrow> LogTotalFailedRows k \<notin> set ls"
  by (auto simp: checkSqliteIntegrity_def split: sum.splits if_splits)

lemma summary_console:
  "console (summary (entries_of names) s) = console s @ [LogMigrationCompleted]"
  by (simp add: summary_def totalFailedRows_entries_of)

text \<open>
  The run on a destination that rejects the third row.
\<close>

lemma sample_page_turn_0:
  "page_turn sample_env ''items'' ''items'' [''id'' \<mapsto> ''integer''] 3
     \<lparr>pg_sent = ps, console = cs, processedRows = 0, failedRows = []\<rparr>
   = Continue \<lparr>pg_sent = ps @ [InsertRow ''items'' [''id''] [SqlRaw (JNumber 1)],
                    InsertRow ''items'' [''id''] [SqlRaw (JNumber 2)],
                    InsertRow ''items'' [''id''] [SqlRaw (JNumber 3)], Commit],
       console = cs @ [LogRowError ''items'' ''duplicate key'', LogProcessed 3 3 ''items''],
       processedRows = 3,
       failedRows = [(''items'', 0, ''duplicate key'')]\<rparr>"
proof -
  have sel: "select_page sample_env ''items'' 0 = Inr sample_rows"
    by (simp add: sample_env_def)
  have len: "length sample_rows = 3" by (simp add: sample_rows_def)
  show ?thesis
    by (simp add: page_turn_def sel len sample_rows_processed Let_def say_def pg_exec_def)
       (simp add: sample_env_def)
qed

lemma sample_page_loop:
  "page_loop sample_env ''items'' ''items'' [''id'' \<mapsto> ''integer''] 3
     \<lparr>pg_sent = ps, console = cs, processedRows = 0, failedRows = []\<rparr>
   = Some \<lparr>pg_sent = ps @ [InsertRow ''items'' [''id''] [SqlRaw (JNumber 1)],
                    InsertRow ''items'' [''id''] [SqlRaw (JNumber 2)],
                    InsertRow ''items'' [''id''] [SqlRaw (JNumber 3)], Commit],
       console = cs @ [LogRowError ''items'' ''duplicate key'', LogProcessed 3 3 ''items''],
       processedRows = 3,
       failedRows = [(''items'', 0, ''duplicate key'')]\<rparr>"
proof -
  have brk: "page_turn sample_env ''items'' ''items'' [''id'' \<mapsto> ''integer''] 3
     \<lparr>pg_sent = ps', console = cs', processedRows = 3, failedRows = fs\<rparr>
     = Break \<lparr>pg_sent = ps', console = cs', processedRows = 3, failedRows = fs\<rparr>" for ps' cs' fs
    by (simp add: page_turn_def sample_env_def)
  show ?thesis
    by (subst page_loop.simps, simp only: sample_page_turn_0 turn.case,
        subst page_loop.simps, simp only: brk turn.case)
qed

lemma sample_get_schema:
  "get_schema sample_env ''items'' 0 = (Inr (Some [(''id'', ''INTEGER'')]), [])"
  by (subst get_schema.simps) (simp add: sample_env_def MAX_RETRIES_def)

lemma sample_migrate:
  "migrate sample_env = Some
     \<lparr>exit_code = 0,
      final = \<lparr>pg_sent = [Truncate ''items'', SelectColumns ''items'',
                    InsertRow ''items'' [''id''] [SqlRaw (JNumber 1)],
                    InsertRow ''items'' [''id''] [SqlRaw (JNumber 2)],
                    InsertRow ''items'' [''id''] [SqlRaw (JNumber 3)], Commit],
       console = [LogRunningIntegrityCheck, LogIntegrityPassed, LogProcessingTable ''items'',
                  LogTruncating ''items'',
                  LogRowError ''items'' ''duplicate key'', LogProcessed 3 3 ''items'',
                  LogFailedRowsHeader ''items'', LogFailedRow 0 ''duplicate key'',
                  LogCompleted 3 ''items'', LogFailedCount 1 ''items'', LogMigrationCompleted],
       processedRows = 3,
       failedRows = [(''items'', 0, ''duplicate key'')]\<rparr>\<rparr>"
proof -
  have env: "pg_connect sample_env = Inr ()" "list_tables sample_env = Inr [''items'']"
    "count_rows sample_env ''items'' = Inr 3"
    "\<And>sent. pg_query sample_env sent (Truncate ''items'') = Inr []"
    "\<And>sent. pg_query sample_env sent (SelectColumns ''items'') = Inr [(''id'', ''integer'')]"
    by (simp_all add: sample_env_def)
  have chk: "checkSqliteIntegrity sample_env = (True, [LogRunningIntegrityCheck, LogIntegrityPassed])"
    by (simp add: checkSqliteIntegrity_def sample_env_def)
  have tbl: "migrate_table sample_env \<lparr>name = ''items'', table_failedRows = None\<rparr>
      \<lparr>pg_sent = [], console = [LogRunningIntegrityCheck, LogIntegrityPassed], processedRows = 0, failedRows = []\<rparr>
    = Some (Inr (), \<lparr>pg_sent = [Truncate ''items'', SelectColumns ''items'',
                    InsertRow ''items'' [''id''] [SqlRaw (JNumber 1)],
                    InsertRow ''items'' [''id''] [SqlRaw (JNumber 2)],
                    InsertRow ''items'' [''id''] [SqlRaw (JNumber 3)], Commit],
       console = [LogRunningIntegrityCheck, LogIntegrityPassed, LogProcessingTable ''items'',
                  LogTruncating ''items'',
                  LogRowError ''items'' ''duplicate key'', LogProcessed 3 3 ''items'',
                  LogFailedRowsHeader ''items'', LogFailedRow 0 ''duplicate key'',
                  LogCompleted 3 ''items'', LogFailedCount 1 ''items''],
       processedRows = 3,
       failedRows = [(''items'', 0, ''duplicate key'')]\<rparr>)"
    by (simp add: migrate_table_def Let_def safe_items truncate_table_def pg_exec_def env say_def
        build_column_types_single load_table_def sample_get_schema create_if_missing_def
        copy_rows_def sample_page_loop report_table_def)
  show ?thesis
    by (simp add: migrate_def env chk entries_of_def say_def initial_state_def tbl summary_def
        totalFailedRows_def)
qed

text \<open>
  Claim C10.  The total of failed rows at the end of a run is summed over the entries of
  \<^verbatim>\<open>tables\<close>, which have no property \<^verbatim>\<open>failedRows\<close>: the total is 0, and no run that ends
  prints the line \<^verbatim>\<open>Total failed rows\<close>, whatever the failure lists of its tables held.
\<close>

theorem total_failed_rows_never_printed:
  "totalFailedRows (entries_of names) = 0
   \<and> (migrate e = Some r \<longrightarrow> (\<forall>k. LogTotalFailedRows k \<notin> set (console (final r))))"
proof (intro conjI impI allI)
  show "totalFailedRows (entries_of names) = 0"
    by (rule totalFailedRows_entries_of)
next
  fix k
  assume run: "migrate e = Some r"
  obtain ok ls where chk: "checkSqliteIntegrity e = (ok, ls)"
    by (cases "checkSqliteIntegrity e")
  have nt: "LogTotalFailedRows k \<notin> set ls"
    using checkSqliteIntegrity_lines [OF chk] .
  show "LogTotalFailedRows k \<notin> set (console (final r))"
  proof (cases "pg_connect e")
    case (Inl err)
    with run show ?thesis
      by (auto simp: migrate_def initial_state_def)
  next
    case connected: (Inr u)
    show ?thesis
    proof (cases ok)
      case False
      with run connected chk nt show ?thesis
        by (auto simp: migrate_def initial_state_def)
    next
      case True
      show ?thesis
      proof (cases "list_tables e")
        case (Inl err)
        with run connected chk True nt
          critical_console [of e err "say ls initial_state"]
        show ?thesis
          by (auto simp: migrate_def initial_state_def)
      next
        case (Inr names')
        with run connected chk True obtain y s1 where
          mt: "migrate_tables e (entries_of names') (say ls initial_state) = Some (y, s1)"
          and r: "r = (case y of
                        Inl err \<Rightarrow> \<lparr>exit_code = 0, final = critical e err s1\<rparr>
                      | Inr _ \<Rightarrow> \<lparr>exit_code = 0, final = summary (entries_of names') s1\<rparr>)"
          by (auto simp: migrate_def split: option.splits sum.splits)
        from migrate_tables_console [OF mt] nt
        have c1: "LogTotalFailedRows k \<notin> set (console s1)"
          by (auto simp: initial_state_def)
        show ?thesis
        proof (cases y)
          case (Inl err)
          with r c1 critical_console [of e err s1] show ?thesis by auto
        next
          case (Inr u')
          with r c1 show ?thesis by (simp add: summary_console)
        qed
      qed
    qed
  qed
qed

text \<open>
  The run of the example records a failed row for its table and prints no total.
\<close>

theorem total_failed_rows_never_printed_witness:
  "migrate sample_env = Some
     \<lparr>exit_code = 0,
      final = \<lparr>pg_sent = [Truncate ''items'', SelectColumns ''items'',
                    InsertRow ''items'' [''id''] [SqlRaw (JNumber 1)],
                    InsertRow ''items'' [''id''] [SqlRaw (JNumber 2)],
                    InsertRow ''items'' [''id''] [SqlRaw (JNumber 3)], Commit],
       console = [LogRunningIntegrityCheck, LogIntegrityPassed, LogProcessingTable ''items'',
                  LogTruncating ''items'',
                  LogRowError ''items'' ''duplicate key'', LogProcessed 3 3 ''items'',
                  LogFailedRowsHeader ''items'', LogFailedRow 0 ''duplicate key'',
                  LogCompleted 3 ''items'', LogFailedCount 1 ''items'', LogMigrationCompleted],
       processedRows = 3,
       failedRows = [(''items'', 0, ''duplicate key'')]\<rparr>\<rparr>
   \<and> totalFailedRows (entries_of [''items'']) = 0"
  using total_failed_rows_never_printed [of "[''items'']" sample_env]
  by (simp add: sample_migrate)

end
